theory Spec2Isabelle
  imports Complex_Main
begin

section \<open>Data model of \<^verbatim>\<open>binding_model.py\<close>\<close>

text \<open>
  Python floats are idealised as \<^typ>\<open>real\<close>: rounding, infinities and NaN are outside
  this development. Every raise of the source is a value of \<open>py_error\<close>, and a
  computation that may raise returns \<open>py_error + 'a\<close> with \<open>Inl\<close> the error.
\<close>

datatype py_error =
  AssertionError | KeyError | IndexError | ZeroDivisionError | AttributeError | TypeError
  | Exception

text \<open>
  The matrix objects of the motif library (\<^verbatim>\<open>Bio.motifs.matrix\<close>, not part of the
  repository): an alphabet with its \<^verbatim>\<open>letters\<close>, a \<^verbatim>\<open>length\<close> attribute (here
  \<open>mlength\<close>, since \<open>length\<close> is the list function) and one row of numbers per letter,
  stored under the letter as in a Python dict. Position weight matrices and position
  specific scoring matrices share the representation.
\<close>

record matrix =
  alphabet :: string
  mlength :: nat
  rows :: "char \<rightharpoonup> real list"

text \<open>
  A collection exposes \<^verbatim>\<open>.pwm\<close> and \<^verbatim>\<open>.sites\<close>; a BindingModel holds the three
  fields \<^verbatim>\<open>_background\<close>, \<^verbatim>\<open>_pwm\<close> and \<^verbatim>\<open>_collection_set\<close> (Isabelle names
  cannot start with an underscore).
\<close>

record collection =
  coll_pwm :: matrix
  coll_sites :: "string list"

record BindingModel =
  f_background :: "char \<rightharpoonup> real"
  f_pwm :: matrix
  f_collection_set :: "collection list"

text \<open>
  What the library guarantees of every matrix object it builds: a non-empty alphabet,
  exactly one row per letter, every row as long as \<^verbatim>\<open>length\<close> says.
\<close>

definition wf_matrix :: "matrix \<Rightarrow> bool" where
  "wf_matrix p \<longleftrightarrow>
     alphabet p \<noteq> [] \<and> dom (rows p) = set (alphabet p) \<and>
     (\<forall>c \<in> set (alphabet p). \<forall>r. rows p c = Some r \<longrightarrow> length r = mlength p)"

text \<open>
  What holds in addition of every position weight matrix the library builds: its
  constructor has divided each column by the column's total, so the entries of a column,
  taken over the letters of the alphabet, sum to 1.
\<close>

definition column_sum :: "matrix \<Rightarrow> nat \<Rightarrow> real" where
  "column_sum p i = sum_list (map (\<lambda>lt. the (rows p lt) ! i) (alphabet p))"

definition wf_pwm :: "matrix \<Rightarrow> bool" where
  "wf_pwm p \<longleftrightarrow> wf_matrix p \<and> (\<forall>i < mlength p. column_sum p i = 1)"

section \<open>Python building blocks\<close>

text \<open>
  A comprehension or generator whose elements may raise: the elements are evaluated left
  to right and the first error ends the evaluation.
\<close>

fun sequence :: "(py_error + 'a) list \<Rightarrow> py_error + 'a list" where
  "sequence [] = Inr []"
| "sequence (x # xs) =
     (case x of
        Inl e \<Rightarrow> Inl e
      | Inr v \<Rightarrow> (case sequence xs of Inl e \<Rightarrow> Inl e | Inr vs \<Rightarrow> Inr (v # vs)))"

text \<open>\<^verbatim>\<open>sum(generator)\<close>: the sum of the elements, or the first error.\<close>

definition py_sum :: "(py_error + real) list \<Rightarrow> py_error + real" where
  "py_sum ts = (case sequence ts of Inl e \<Rightarrow> Inl e | Inr vs \<Rightarrow> Inr (sum_list vs))"

text \<open>
  \<^verbatim>\<open>m[let][i]\<close> on a matrix: a dict lookup of the letter (KeyError when absent), then a
  list index that is never negative here (IndexError when out of range).
\<close>

definition getitem :: "matrix \<Rightarrow> char \<Rightarrow> nat \<Rightarrow> py_error + real" where
  "getitem m c i =
     (case rows m c of
        None \<Rightarrow> Inl KeyError
      | Some r \<Rightarrow> if i < length r then Inr (r ! i) else Inl IndexError)"

text \<open>The entry of a well-formed matrix, for stating results.\<close>

definition entry :: "matrix \<Rightarrow> char \<Rightarrow> nat \<Rightarrow> real" where
  "entry m c i = the (rows m c) ! i"

section \<open>PWM combination\<close>

text \<open>
  The constructor \<^verbatim>\<open>PositionWeightMatrix(alphabet, values)\<close> of the motif library,
  called at line 122; the library is not under src/. The constructor reads the row of
  every letter (a letter without a row is a KeyError), takes the length of the first
  row as the length of the matrix and refuses rows of another length. Then, position
  by position, it adds up the column over the letters of the alphabet and divides the
  entry of each letter by that total, in place and once for each occurrence of the
  letter in the alphabet: a column whose total is zero raises ZeroDivisionError.
\<close>

definition PositionWeightMatrix :: "string \<Rightarrow> (char \<rightharpoonup> real list) \<Rightarrow> py_error + matrix" where
  "PositionWeightMatrix letters vals =
     (let n = (case letters of
                 [] \<Rightarrow> 0
               | a # _ \<Rightarrow> (case vals a of None \<Rightarrow> 0 | Some r \<Rightarrow> length r))
      in case sequence (map (\<lambda>lt. case vals lt of
                                     None \<Rightarrow> Inl KeyError
                                   | Some r \<Rightarrow> if length r \<noteq> n then Inl Exception else Inr r)
                            letters) of
           Inl e \<Rightarrow> Inl e
         | Inr rs \<Rightarrow>
             let total = (\<lambda>i. sum_list (map (\<lambda>r. r ! i) rs))
             in if list_ex (\<lambda>i. total i = 0) [0..<n] then Inl ZeroDivisionError
                else Inr \<lparr>alphabet = letters, mlength = n,
                          rows = (\<lambda>c. if c \<in> set letters
                                       then map_option
                                              (\<lambda>r. map (\<lambda>i. r ! i / total i ^ count_list letters c)
                                                       [0..<n])
                                              (vals c)
                                       else None)\<rparr>)"

text \<open>
  Line 117, \<^verbatim>\<open>[float(weight)/sum(weights) for weight in weights]\<close>: one division per
  weight, each by the sum of the original list; a zero sum raises at the first weight,
  and an empty list divides nothing.
\<close>

definition normalize_weights :: "real list \<Rightarrow> py_error + real list" where
  "normalize_weights weights =
     sequence (map (\<lambda>weight. if sum_list weights = 0 then Inl ZeroDivisionError
                             else Inr (weight / sum_list weights)) weights)"

text \<open>
  Lines 119-120, one cell of the combination:
  \<^verbatim>\<open>sum(pwm[let][i]*w for pwm, w in zip(pwms, weights))\<close>. \<open>zip\<close> stops at the shorter
  list, as Python's does.
\<close>

definition combine_cell :: "matrix list \<Rightarrow> real list \<Rightarrow> char \<Rightarrow> nat \<Rightarrow> py_error + real" where
  "combine_cell pwms ws lt i =
     py_sum (map (\<lambda>(pwm, w). case getitem pwm lt i of Inl e \<Rightarrow> Inl e | Inr v \<Rightarrow> Inr (v * w))
                 (zip pwms ws))"

text \<open>
  \<^verbatim>\<open>BindingModel._combine_pwms\<close>, lines 107-122. \<^verbatim>\<open>pwms[0]\<close> raises IndexError on
  an empty list; the two assertions follow in the source's order, then the
  normalisation of the weights, then the dict comprehension over the letters.
\<close>

definition combine_pwms :: "matrix list \<Rightarrow> real list \<Rightarrow> py_error + matrix" where
  "combine_pwms pwms weights =
     (case pwms of
        [] \<Rightarrow> Inl IndexError
      | p0 # _ \<Rightarrow>
          if \<not> list_all (\<lambda>pwm. mlength p0 = mlength pwm) pwms then Inl AssertionError
          else if \<not> list_all (\<lambda>pwm. alphabet p0 = alphabet pwm) pwms then Inl AssertionError
          else
            (case normalize_weights weights of
               Inl e \<Rightarrow> Inl e
             | Inr ws \<Rightarrow>
                 (case sequence (map (\<lambda>lt. sequence (map (combine_cell pwms ws lt)
                                                         [0..<mlength p0]))
                                     (alphabet p0)) of
                    Inl e \<Rightarrow> Inl e
                  | Inr rs \<Rightarrow>
                      PositionWeightMatrix (alphabet p0) (map_of (zip (alphabet p0) rs)))))"

section \<open>Derived scoring properties\<close>

text \<open>
  Modelled from the spec: \<^verbatim>\<open>log_odds(background)\<close> of the motif library, which is not
  under src/. The spec gives \<open>pssm[sym][pos] = log2(pwm[sym][pos] / background[sym])\<close>,
  with the same alphabet and length. The background is a dict, so a letter it lacks is a
  KeyError. Where an entry of the PWM or of the background is not positive the float
  result is not finite; the real-valued model is meant for positive entries only.
\<close>

definition log_odds :: "matrix \<Rightarrow> (char \<rightharpoonup> real) \<Rightarrow> py_error + matrix" where
  "log_odds m bg =
     (case sequence (map (\<lambda>lt. case bg lt of
                                  None \<Rightarrow> Inl KeyError
                                | Some b \<Rightarrow> (case rows m lt of
                                              None \<Rightarrow> Inl KeyError
                                            | Some r \<Rightarrow> Inr (map (\<lambda>p. log 2 (p / b)) r)))
                         (alphabet m)) of
        Inl e \<Rightarrow> Inl e
      | Inr rs \<Rightarrow>
          Inr \<lparr>alphabet = alphabet m, mlength = mlength m,
               rows = map_of (zip (alphabet m) rs)\<rparr>)"

text \<open>The properties \<^verbatim>\<open>pwm\<close>, \<^verbatim>\<open>length\<close>, \<^verbatim>\<open>background\<close>, \<^verbatim>\<open>pssm\<close> and \<^verbatim>\<open>sites\<close>.\<close>

definition pwm :: "BindingModel \<Rightarrow> matrix" where
  "pwm self = f_pwm self"

definition model_length :: "BindingModel \<Rightarrow> nat" where
  "model_length self = mlength (f_pwm self)"

definition background :: "BindingModel \<Rightarrow> (char \<rightharpoonup> real)" where
  "background self = f_background self"

definition pssm :: "BindingModel \<Rightarrow> py_error + matrix" where
  "pssm self = log_odds (f_pwm self) (background self)"

definition sites :: "BindingModel \<Rightarrow> string list" where
  "sites self = concat (map coll_sites (f_collection_set self))"

section \<open>Sequence scoring\<close>

text \<open>
  Modelled from the spec: \<^verbatim>\<open>bio_utils.complement\<close>, which is not under src/. The spec
  gives the symbol-wise complement (A with T, C with G), of the same length and not
  reversed. What the helper does with a symbol outside A, C, G, T is not specified: the
  parameter \<open>other\<close> decides it, \<open>None\<close> for a failed lookup.
\<close>

definition complement_sym :: "(char \<Rightarrow> char option) \<Rightarrow> char \<Rightarrow> py_error + char" where
  "complement_sym other c =
     (if c = CHR ''A'' then Inr (CHR ''T'')
      else if c = CHR ''T'' then Inr (CHR ''A'')
      else if c = CHR ''C'' then Inr (CHR ''G'')
      else if c = CHR ''G'' then Inr (CHR ''C'')
      else (case other c of None \<Rightarrow> Inl KeyError | Some d \<Rightarrow> Inr d))"

definition complement :: "(char \<Rightarrow> char option) \<Rightarrow> string \<Rightarrow> py_error + string" where
  "complement other seq = sequence (map (complement_sym other) seq)"

text \<open>Modelled from the spec: \<^verbatim>\<open>misc.log2\<close>, the base-2 logarithm helper.\<close>

definition log2 :: "real \<Rightarrow> real" where
  "log2 x = log 2 x"

text \<open>\<^verbatim>\<open>s[i]\<close> on a string, for an index that is never negative.\<close>

definition str_index :: "string \<Rightarrow> nat \<Rightarrow> py_error + char" where
  "str_index s i = (if i < length s then Inr (s ! i) else Inl IndexError)"

text \<open>
  Lines 68-69, the element of the generator at position \<open>i\<close>:
  \<^verbatim>\<open>misc.log2(2**self.pssm[seq[i]][i] + 2**self.pssm[complement_seq[i]][i])\<close>, with the
  property \<^verbatim>\<open>pssm\<close> computed at each of its two uses.
\<close>

definition strand_score :: "BindingModel \<Rightarrow> string \<Rightarrow> string \<Rightarrow> nat \<Rightarrow> py_error + real" where
  "strand_score self seq complement_seq i =
     (case pssm self of Inl e \<Rightarrow> Inl e | Inr ps \<Rightarrow>
     (case str_index seq i of Inl e \<Rightarrow> Inl e | Inr c \<Rightarrow>
     (case getitem ps c i of Inl e \<Rightarrow> Inl e | Inr a \<Rightarrow>
     (case pssm self of Inl e \<Rightarrow> Inl e | Inr ps' \<Rightarrow>
     (case str_index complement_seq i of Inl e \<Rightarrow> Inl e | Inr c' \<Rightarrow>
     (case getitem ps' c' i of Inl e \<Rightarrow> Inl e | Inr b \<Rightarrow>
        Inr (log2 (2 powr a + 2 powr b))))))))"

text \<open>\<^verbatim>\<open>BindingModel.score_seq\<close>, lines 61-71.\<close>

definition score_seq :: "(char \<Rightarrow> char option) \<Rightarrow> BindingModel \<Rightarrow> string \<Rightarrow> py_error + real" where
  "score_seq other self seq =
     (if model_length self \<noteq> length seq then Inl AssertionError
      else (case complement other seq of
              Inl e \<Rightarrow> Inl e
            | Inr complement_seq \<Rightarrow>
                py_sum (map (strand_score self seq complement_seq) [0..<length seq])))"

text \<open>\<^verbatim>\<open>BindingModel.self_score\<close>, lines 73-75.\<close>

definition self_score :: "(char \<Rightarrow> char option) \<Rightarrow> BindingModel \<Rightarrow> py_error + real list" where
  "self_score other self = sequence (map (score_seq other self) (sites self))"

section \<open>Bayesian estimator\<close>

text \<open>
  The numeric library: \<^verbatim>\<open>np.mean\<close>, \<^verbatim>\<open>np.std\<close> (the population standard deviation)
  and the density of \<^verbatim>\<open>scipy.stats.distributions.norm(mu, std)\<close>.
\<close>

definition np_mean :: "real list \<Rightarrow> real" where
  "np_mean xs = sum_list xs / real (length xs)"

definition np_std :: "real list \<Rightarrow> real" where
  "np_std xs = sqrt (np_mean (map (\<lambda>x. (x - np_mean xs)\<^sup>2) xs))"

definition norm_pdf :: "real \<Rightarrow> real \<Rightarrow> real \<Rightarrow> real" where
  "norm_pdf mu sd x = exp (- (((x - mu) / sd)\<^sup>2) / 2) / (sd * sqrt (2 * pi))"

text \<open>The four fitted parameters of lines 93 and 95.\<close>

record gaussians =
  mu_m :: real
  std_m :: real
  mu_g :: real
  std_g :: real

definition fit_gaussians :: "real list \<Rightarrow> real list \<Rightarrow> gaussians" where
  "fit_gaussians pssm_scores bg_scores =
     \<lparr>mu_m = np_mean pssm_scores, std_m = np_std pssm_scores,
      mu_g = np_mean bg_scores, std_g = np_std bg_scores\<rparr>"

text \<open>The closures of lines 97-105, applied to a vector of scores.\<close>

definition lh_g :: "gaussians \<Rightarrow> real \<Rightarrow> real" where
  "lh_g g s = norm_pdf (mu_g g) (std_g g) s"

definition lh_m :: "gaussians \<Rightarrow> real \<Rightarrow> real \<Rightarrow> real" where
  "lh_m g alpha s =
     alpha * norm_pdf (mu_m g) (std_m g) s + (1 - alpha) * norm_pdf (mu_g g) (std_g g) s"

definition lh_ratio :: "gaussians \<Rightarrow> real \<Rightarrow> real list \<Rightarrow> real" where
  "lh_ratio g alpha scores =
     exp (sum_list (map (\<lambda>s. ln (lh_g g s) - ln (lh_m g alpha s)) scores))"

definition estimator :: "gaussians \<Rightarrow> real \<Rightarrow> real \<Rightarrow> real list \<Rightarrow> real" where
  "estimator g alpha prior_m scores =
     (let prior_g = 1 - prior_m
      in 1 / (1 + lh_ratio g alpha scores * prior_m / prior_g))"

text \<open>
  Attribute lookup on a BindingModel: the names the class and its constructor define.
  A name that is not among them raises AttributeError; of the names that are, only
  \<^verbatim>\<open>self_score\<close> is a method of no argument that returns a list of scores.
\<close>

definition BindingModel_attributes :: "string list" where
  "BindingModel_attributes =
     [''_background'', ''_pwm'', ''_collection_set'', ''pwm'', ''length'', ''pssm'',
      ''background'', ''IC'', ''patser_threshold'', ''sites'', ''score_seq'',
      ''self_score'', ''bayesian_estimator'', ''_combine_pwms'']"

definition call_scores_method ::
  "(char \<Rightarrow> char option) \<Rightarrow> BindingModel \<Rightarrow> string \<Rightarrow> py_error + real list" where
  "call_scores_method other self name =
     (if name \<notin> set BindingModel_attributes then Inl AttributeError
      else if name = ''self_score'' then self_score other self
      else Inl TypeError)"

text \<open>
  \<^verbatim>\<open>BindingModel.bayesian_estimator\<close>, lines 77-105. Line 92 calls
  \<^verbatim>\<open>self.score_self()\<close>.
\<close>

definition bayesian_estimator ::
  "(char \<Rightarrow> char option) \<Rightarrow> BindingModel \<Rightarrow> real list \<Rightarrow> real \<Rightarrow> real
     \<Rightarrow> py_error + (real list \<Rightarrow> real)" where
  "bayesian_estimator other self bg_scores prior_m alpha =
     (case call_scores_method other self ''score_self'' of
        Inl e \<Rightarrow> Inl e
      | Inr pssm_scores \<Rightarrow>
          Inr (estimator (fit_gaussians pssm_scores bg_scores) alpha prior_m))"

section \<open>Construction\<close>

text \<open>\<^verbatim>\<open>BindingModel.__init__\<close>, lines 15-19, and its default background.\<close>

definition default_background :: "char \<rightharpoonup> real" where
  "default_background =
     [CHR ''A'' \<mapsto> 0.25, CHR ''C'' \<mapsto> 0.25, CHR ''G'' \<mapsto> 0.25, CHR ''T'' \<mapsto> 0.25]"

definition init :: "collection list \<Rightarrow> real list \<Rightarrow> (char \<rightharpoonup> real) \<Rightarrow> py_error + BindingModel" where
  "init collections weights bg =
     (case combine_pwms (map coll_pwm collections) weights of
        Inl e \<Rightarrow> Inl e
      | Inr p \<Rightarrow> Inr \<lparr>f_background = bg, f_pwm = p, f_collection_set = collections\<rparr>)"

section \<open>Calls on the object\<close>

text \<open>
  To say what a call does to the fields, a call on a BindingModel is a function from the
  object before the call to the result and the object after it. The three fields hold
  three distinct objects (a matrix, a dict, a list), and nothing outside
  \<^verbatim>\<open>__init__\<close> rebinds a field, so the contents of the three objects are the state.
  Reading an attribute returns its content and leaves the object as it is. A method of
  the motif library that is handed a field's object may change that object in place: it
  returns its result together with the objects as it leaves them, and the caller's
  fields, which refer to the same objects, hold the changed contents afterwards.
\<close>

type_synonym 'a call = "BindingModel \<Rightarrow> 'a \<times> BindingModel"

text \<open>
  The methods of the motif library that the class calls; their code is not part of the
  repository, so they are parameters. \<^verbatim>\<open>log_odds\<close> is called on the PWM of the field
  \<^verbatim>\<open>_pwm\<close> with the dict of the field \<^verbatim>\<open>_background\<close>: it returns the PSSM (or
  raises), the PWM and the dict as the call leaves them. \<^verbatim>\<open>mean()\<close> and
  \<^verbatim>\<open>distribution(precision).threshold_patser()\<close> are called on the PSSM, which is
  an object of its own that no field refers to.
\<close>

record motif_library =
  lib_log_odds :: "matrix \<Rightarrow> (char \<rightharpoonup> real) \<Rightarrow> (py_error + matrix) \<times> matrix \<times> (char \<rightharpoonup> real)"
  lib_mean :: "matrix \<Rightarrow> py_error + real"
  lib_threshold_patser :: "matrix \<Rightarrow> nat \<Rightarrow> py_error + real"

text \<open>
  A library whose \<^verbatim>\<open>log_odds\<close> leaves the objects it receives unchanged, and one that
  moreover computes the log-odds modelled above.
\<close>

definition leaves_arguments :: "motif_library \<Rightarrow> bool" where
  "leaves_arguments lib \<longleftrightarrow> (\<forall>m bg. snd (lib_log_odds lib m bg) = (m, bg))"

definition computes_log_odds :: "motif_library \<Rightarrow> bool" where
  "computes_log_odds lib \<longleftrightarrow> (\<forall>m bg. lib_log_odds lib m bg = (log_odds m bg, m, bg))"

text \<open>The properties \<^verbatim>\<open>pwm\<close>, \<^verbatim>\<open>length\<close> and \<^verbatim>\<open>background\<close>, lines 21-39.\<close>

definition call_pwm :: "matrix call" where
  "call_pwm self = (f_pwm self, self)"

definition call_length :: "nat call" where
  "call_length self = (mlength (f_pwm self), self)"

definition call_background :: "(char \<rightharpoonup> real) call" where
  "call_background self = (f_background self, self)"

text \<open>
  The property \<^verbatim>\<open>pssm\<close>, lines 31-34: \<^verbatim>\<open>self._pwm.log_odds(self.background)\<close>.
  The library receives the two objects, and the fields hold what it leaves of them.
\<close>

definition call_pssm :: "motif_library \<Rightarrow> (py_error + matrix) call" where
  "call_pssm lib self =
     (case call_background self of
        (bg, s1) \<Rightarrow>
          (case lib_log_odds lib (f_pwm s1) bg of
             (r, m', bg') \<Rightarrow> (r, s1\<lparr>f_pwm := m', f_background := bg'\<rparr>)))"

text \<open>The properties \<^verbatim>\<open>IC\<close>, \<^verbatim>\<open>patser_threshold\<close> and \<^verbatim>\<open>sites\<close>, lines 41-59.\<close>

definition call_IC :: "motif_library \<Rightarrow> (py_error + real) call" where
  "call_IC lib self =
     (case call_pssm lib self of
        (Inl e, s1) \<Rightarrow> (Inl e, s1)
      | (Inr ps, s1) \<Rightarrow> (lib_mean lib ps, s1))"

definition call_patser_threshold :: "motif_library \<Rightarrow> (py_error + real) call" where
  "call_patser_threshold lib self =
     (case call_pssm lib self of
        (Inl e, s1) \<Rightarrow> (Inl e, s1)
      | (Inr ps, s1) \<Rightarrow> (lib_threshold_patser lib ps (10 ^ 3), s1))"

definition call_sites :: "string list call" where
  "call_sites self = (concat (map coll_sites (f_collection_set self)), self)"

text \<open>
  A comprehension or generator whose elements are calls on the object: each element
  runs on the object as the one before left it, and the first error ends the run.
\<close>

fun sequence_calls :: "(py_error + 'a) call list \<Rightarrow> (py_error + 'a list) call" where
  "sequence_calls [] self = (Inr [], self)"
| "sequence_calls (c # cs) self =
     (case c self of
        (Inl e, s1) \<Rightarrow> (Inl e, s1)
      | (Inr v, s1) \<Rightarrow>
          (case sequence_calls cs s1 of
             (Inl e, s2) \<Rightarrow> (Inl e, s2)
           | (Inr vs, s2) \<Rightarrow> (Inr (v # vs), s2)))"

text \<open>
  \<^verbatim>\<open>score_seq\<close>, lines 61-71, as a call: the element of the generator at position
  \<open>i\<close> asks for the property \<^verbatim>\<open>pssm\<close> twice, each time a call on the object.
\<close>

definition call_strand_score ::
  "motif_library \<Rightarrow> string \<Rightarrow> string \<Rightarrow> nat \<Rightarrow> (py_error + real) call" where
  "call_strand_score lib seq complement_seq i self =
     (case call_pssm lib self of
        (Inl e, s1) \<Rightarrow> (Inl e, s1)
      | (Inr ps, s1) \<Rightarrow>
     (case str_index seq i of Inl e \<Rightarrow> (Inl e, s1) | Inr c \<Rightarrow>
     (case getitem ps c i of Inl e \<Rightarrow> (Inl e, s1) | Inr a \<Rightarrow>
     (case call_pssm lib s1 of
        (Inl e, s2) \<Rightarrow> (Inl e, s2)
      | (Inr ps', s2) \<Rightarrow>
     (case str_index complement_seq i of Inl e \<Rightarrow> (Inl e, s2) | Inr c' \<Rightarrow>
     (case getitem ps' c' i of Inl e \<Rightarrow> (Inl e, s2) | Inr b \<Rightarrow>
        (Inr (log2 (2 powr a + 2 powr b)), s2)))))))"

definition call_score_seq ::
  "motif_library \<Rightarrow> (char \<Rightarrow> char option) \<Rightarrow> string \<Rightarrow> (py_error + real) call" where
  "call_score_seq lib other seq self =
     (case call_length self of
        (n, s1) \<Rightarrow>
          if n \<noteq> length seq then (Inl AssertionError, s1)
          else (case complement other seq of
                  Inl e \<Rightarrow> (Inl e, s1)
                | Inr complement_seq \<Rightarrow>
                    (case sequence_calls (map (call_strand_score lib seq complement_seq)
                                              [0..<length seq]) s1 of
                       (Inl e, s2) \<Rightarrow> (Inl e, s2)
                     | (Inr vs, s2) \<Rightarrow> (Inr (sum_list vs), s2))))"

text \<open>\<^verbatim>\<open>self_score\<close>, lines 73-75, as a call.\<close>

definition call_self_score ::
  "motif_library \<Rightarrow> (char \<Rightarrow> char option) \<Rightarrow> (py_error + real list) call" where
  "call_self_score lib other self =
     (case call_sites self of
        (ss, s1) \<Rightarrow> sequence_calls (map (call_score_seq lib other) ss) s1)"

text \<open>
  \<^verbatim>\<open>bayesian_estimator\<close>, lines 77-105, as a call: the lookup of the method named at
  line 92, then its call, then the fit.
\<close>

definition call_method_named ::
  "motif_library \<Rightarrow> (char \<Rightarrow> char option) \<Rightarrow> string \<Rightarrow> (py_error + real list) call" where
  "call_method_named lib other name self =
     (if name \<notin> set BindingModel_attributes then (Inl AttributeError, self)
      else if name = ''self_score'' then call_self_score lib other self
      else (Inl TypeError, self))"

definition call_bayesian_estimator ::
  "motif_library \<Rightarrow> (char \<Rightarrow> char option) \<Rightarrow> real list \<Rightarrow> real \<Rightarrow> real
     \<Rightarrow> (py_error + (real list \<Rightarrow> real)) call" where
  "call_bayesian_estimator lib other bg_scores prior_m alpha self =
     (case call_method_named lib other ''score_self'' self of
        (Inl e, s1) \<Rightarrow> (Inl e, s1)
      | (Inr pssm_scores, s1) \<Rightarrow>
          (Inr (estimator (fit_gaussians pssm_scores bg_scores) alpha prior_m), s1))"

text \<open>
  Two libraries for concrete runs. The first computes the log-odds modelled above and
  touches nothing. The second returns the same PSSM but rescales the background dict
  it was handed so that it sums to 1, in place.
\<close>

definition quiet_library ::
  "(matrix \<Rightarrow> py_error + real) \<Rightarrow> (matrix \<Rightarrow> nat \<Rightarrow> py_error + real) \<Rightarrow> motif_library" where
  "quiet_library mean threshold =
     \<lparr>lib_log_odds = (\<lambda>m bg. (log_odds m bg, m, bg)),
      lib_mean = mean, lib_threshold_patser = threshold\<rparr>"

definition rescaling_library ::
  "(matrix \<Rightarrow> py_error + real) \<Rightarrow> (matrix \<Rightarrow> nat \<Rightarrow> py_error + real) \<Rightarrow> motif_library" where
  "rescaling_library mean threshold =
     \<lparr>lib_log_odds =
        (\<lambda>m bg. (log_odds m bg, m,
                  (\<lambda>c. map_option
                          (\<lambda>b. b / sum_list (map (\<lambda>lt. case bg lt of None \<Rightarrow> 0 | Some x \<Rightarrow> x)
                                                   (alphabet m)))
                          (bg c)))),
      lib_mean = mean, lib_threshold_patser = threshold\<rparr>"

definition doubled_background :: "char \<rightharpoonup> real" where
  "doubled_background =
     [CHR ''A'' \<mapsto> 0.5, CHR ''C'' \<mapsto> 0.5, CHR ''G'' \<mapsto> 0.5, CHR ''T'' \<mapsto> 0.5]"

section \<open>Models over the DNA alphabet\<close>

text \<open>
  The models the scoring claims are about: a well-formed PWM over the letters A, C, G, T
  (the alphabet the source names at line 114), with positive entries, and a background
  that gives each of the four letters a positive probability. For these every entry of
  the PSSM is a finite number; with a zero entry the float is infinite, which the reals
  do not have. \<open>dna_complement\<close> is the complement of one symbol, for stating results.
\<close>

definition positive_entries :: "matrix \<Rightarrow> bool" where
  "positive_entries m \<longleftrightarrow>
     (\<forall>c \<in> set (alphabet m). \<forall>r. rows m c = Some r \<longrightarrow> (\<forall>x \<in> set r. 0 < x))"

definition dna_model :: "BindingModel \<Rightarrow> bool" where
  "dna_model self \<longleftrightarrow>
     wf_matrix (f_pwm self) \<and> set (alphabet (f_pwm self)) = set ''ACGT'' \<and>
     positive_entries (f_pwm self) \<and>
     (\<forall>c \<in> set ''ACGT''. \<exists>b. f_background self c = Some b \<and> 0 < b)"

definition dna_complement :: "char \<Rightarrow> char" where
  "dna_complement c =
     (if c = CHR ''A'' then CHR ''T'' else if c = CHR ''T'' then CHR ''A''
      else if c = CHR ''C'' then CHR ''G'' else if c = CHR ''G'' then CHR ''C'' else c)"

text \<open>The weighted sum that a cell of the combination holds, for stating results.\<close>

definition weighted_cell :: "matrix list \<Rightarrow> real list \<Rightarrow> char \<Rightarrow> nat \<Rightarrow> real" where
  "weighted_cell pwms ws lt i = sum_list (map (\<lambda>(p, w). entry p lt i * w) (zip pwms ws))"

section \<open>Concrete matrices and models\<close>

text \<open>
  Two PWMs of length 2 over ACGT, one uniform and one skewed, and a PWM of length 1;
  \<open>table\<close> lists the rows of a matrix in the order of its letters. Two models follow,
  each built from one collection with two sites.
\<close>

definition uniform_pwm :: matrix where
  "uniform_pwm =
     \<lparr>alphabet = ''ACGT'', mlength = 2,
      rows = [CHR ''A'' \<mapsto> [1/4, 1/4], CHR ''C'' \<mapsto> [1/4, 1/4],
              CHR ''G'' \<mapsto> [1/4, 1/4], CHR ''T'' \<mapsto> [1/4, 1/4]]\<rparr>"

definition skewed_pwm :: matrix where
  "skewed_pwm =
     \<lparr>alphabet = ''ACGT'', mlength = 2,
      rows = [CHR ''A'' \<mapsto> [1/2, 1/8], CHR ''C'' \<mapsto> [1/4, 1/8],
              CHR ''G'' \<mapsto> [1/8, 1/4], CHR ''T'' \<mapsto> [1/8, 1/2]]\<rparr>"

definition short_pwm :: matrix where
  "short_pwm =
     \<lparr>alphabet = ''ACGT'', mlength = 1,
      rows = [CHR ''A'' \<mapsto> [1/4], CHR ''C'' \<mapsto> [1/4],
              CHR ''G'' \<mapsto> [1/4], CHR ''T'' \<mapsto> [1/4]]\<rparr>"

definition table :: "matrix \<Rightarrow> (char \<times> real list option) list" where
  "table m = map (\<lambda>c. (c, rows m c)) (alphabet m)"

definition uniform_model :: BindingModel where
  "uniform_model =
     \<lparr>f_background = default_background, f_pwm = uniform_pwm,
      f_collection_set = [\<lparr>coll_pwm = uniform_pwm, coll_sites = [''AC'', ''GT'']\<rparr>]\<rparr>"

definition skewed_model :: BindingModel where
  "skewed_model =
     \<lparr>f_background = default_background, f_pwm = skewed_pwm,
      f_collection_set = [\<lparr>coll_pwm = skewed_pwm, coll_sites = [''AT'', ''AG'']\<rparr>]\<rparr>"

section \<open>Facts about the building blocks\<close>

lemma sequence_map_Inr:
  "(\<And>x. x \<in> set xs \<Longrightarrow> f x = Inr (g x)) \<Longrightarrow> sequence (map f xs) = Inr (map g xs)"
  by (induction xs) simp_all

lemma sequence_Inr_length:
  "sequence ts = Inr vs \<Longrightarrow> length vs = length ts"
  by (induction ts arbitrary: vs) (auto split: sum.splits)

lemma sequence_Inl_mem:
  "sequence ts = Inl e \<Longrightarrow> Inl e \<in> set ts"
  by (induction ts) (auto split: sum.splits)

lemma normalize_weights_zero:
  "weights \<noteq> [] \<Longrightarrow> sum_list weights = 0 \<Longrightarrow> normalize_weights weights = Inl ZeroDivisionError"
  by (cases weights) (simp_all add: normalize_weights_def)

lemma normalize_weights_nonzero:
  "sum_list weights \<noteq> 0 \<Longrightarrow>
   normalize_weights weights = Inr (map (\<lambda>w. w / sum_list weights) weights)"
  unfolding normalize_weights_def by (rule sequence_map_Inr) simp

lemma normalize_weights_Nil: "normalize_weights [] = Inr []"
  by (simp add: normalize_weights_def)

lemma normalize_weights_scale:
  assumes "c \<noteq> 0"
  shows "normalize_weights (map (\<lambda>w. c * w) weights) = normalize_weights weights"
proof (cases "weights = []")
  case True
  then show ?thesis by simp
next
  case False
  have s: "sum_list (map (\<lambda>w. c * w) weights) = c * sum_list weights"
    by (simp add: sum_list_const_mult)
  show ?thesis
  proof (cases "sum_list weights = 0")
    case True
    with False s show ?thesis by (simp add: normalize_weights_zero)
  next
    case nz: False
    with assms s have "sum_list (map (\<lambda>w. c * w) weights) \<noteq> 0" by simp
    then show ?thesis
      using nz assms by (simp add: normalize_weights_nonzero s o_def)
  qed
qed

lemma getitem_wf:
  "wf_matrix p \<Longrightarrow> c \<in> set (alphabet p) \<Longrightarrow> i < mlength p \<Longrightarrow> getitem p c i = Inr (entry p c i)"
  by (auto simp: wf_matrix_def getitem_def entry_def split: option.splits)

lemma py_sum_map_Inr:
  "(\<And>x. x \<in> set xs \<Longrightarrow> f x = Inr (g x)) \<Longrightarrow> py_sum (map f xs) = Inr (sum_list (map g xs))"
  by (simp add: py_sum_def sequence_map_Inr)

lemma combine_cell_Inr:
  assumes "\<forall>p\<in>set pwms. wf_matrix p \<and> mlength p = L \<and> alphabet p = A"
    and "lt \<in> set A" and "i < L"
  shows "combine_cell pwms ws lt i = Inr (weighted_cell pwms ws lt i)"
  unfolding combine_cell_def weighted_cell_def
proof (rule py_sum_map_Inr)
  fix x assume "x \<in> set (zip pwms ws)"
  then obtain p w where x: "x = (p, w)" and "p \<in> set pwms"
    by (metis prod.exhaust set_zip_leftD)
  with assms have "getitem p lt i = Inr (entry p lt i)"
    by (intro getitem_wf) auto
  with x show "(case x of (q, w) \<Rightarrow> (case getitem q lt i of Inl e \<Rightarrow> Inl e | Inr v \<Rightarrow> Inr (v * w)))
      = Inr (case x of (q, w) \<Rightarrow> entry q lt i * w)"
    by simp
qed

lemma weighted_cell_sum:
  assumes "length ws = length pwms"
  shows "weighted_cell pwms ws lt i = (\<Sum>k<length pwms. entry (pwms ! k) lt i * ws ! k)"
proof -
  have "weighted_cell pwms ws lt i
      = (\<Sum>k = 0..<length (zip pwms ws). map (\<lambda>(p, w). entry p lt i * w) (zip pwms ws) ! k)"
    unfolding weighted_cell_def by (simp add: sum_list_sum_nth)
  also have "\<dots> = (\<Sum>k = 0..<length pwms. entry (pwms ! k) lt i * ws ! k)"
    using assms by (intro sum.cong) simp_all
  finally show ?thesis by (simp add: atLeast0LessThan)
qed

lemma weighted_cell_replicate:
  assumes "\<forall>p\<in>set pwms. p = q" and "length weights = length pwms" and "sum_list weights \<noteq> 0"
  shows "weighted_cell pwms (map (\<lambda>w. w / sum_list weights) weights) lt i = entry q lt i"
proof -
  have "weighted_cell pwms (map (\<lambda>w. w / sum_list weights) weights) lt i
      = (\<Sum>k<length pwms. entry (pwms ! k) lt i * (weights ! k / sum_list weights))"
    using assms(2) by (simp add: weighted_cell_sum)
  also have "\<dots> = (\<Sum>k<length pwms. entry q lt i * (weights ! k / sum_list weights))"
  proof (intro sum.cong refl)
    fix k assume "k \<in> {..<length pwms}"
    then have "pwms ! k \<in> set pwms" by simp
    with assms(1) have "pwms ! k = q" by blast
    then show "entry (pwms ! k) lt i * (weights ! k / sum_list weights)
        = entry q lt i * (weights ! k / sum_list weights)" by simp
  qed
  also have "\<dots> = entry q lt i * ((\<Sum>k<length weights. weights ! k) / sum_list weights)"
    using assms(2) by (simp add: sum_distrib_left sum_divide_distrib)
  also have "(\<Sum>k<length weights. weights ! k) = sum_list weights"
    by (simp add: sum_list_sum_nth atLeast0LessThan)
  finally show ?thesis using assms(3) by simp
qed

lemma wf_uniform_pwm: "wf_matrix uniform_pwm"
  by (auto simp: wf_matrix_def uniform_pwm_def)

lemma wf_skewed_pwm: "wf_matrix skewed_pwm"
  by (auto simp: wf_matrix_def skewed_pwm_def)

lemma wf_short_pwm: "wf_matrix short_pwm"
  by (auto simp: wf_matrix_def short_pwm_def)

lemma normalize_weights_cases:
  "normalize_weights weights = Inl ZeroDivisionError \<or> (\<exists>ws. normalize_weights weights = Inr ws)"
proof (cases "weights \<noteq> [] \<and> sum_list weights = 0")
  case True
  then show ?thesis by (simp add: normalize_weights_zero)
next
  case False
  then show ?thesis
    by (cases "weights = []") (auto simp: normalize_weights_nonzero normalize_weights_Nil)
qed

lemma combine_pwms_assertion:
  assumes "pwms \<noteq> []"
    and "\<exists>p\<in>set pwms. mlength p \<noteq> mlength (hd pwms) \<or> alphabet p \<noteq> alphabet (hd pwms)"
  shows "combine_pwms pwms weights = Inl AssertionError"
proof -
  from assms(1) obtain p0 ps where pw: "pwms = p0 # ps" by (cases pwms) auto
  from assms(2) have "\<not> list_all (\<lambda>q. mlength p0 = mlength q) pwms
      \<or> \<not> list_all (\<lambda>q. alphabet p0 = alphabet q) pwms"
    unfolding pw list_all_iff by (metis list.sel(1))
  then show ?thesis
    unfolding combine_pwms_def pw by auto
qed

lemma init_error:
  "init collections weights bg = Inl e \<longleftrightarrow>
     combine_pwms (map coll_pwm collections) weights = Inl e"
  by (simp add: init_def split: sum.splits)

lemma sequence_first_error:
  "(\<And>t. t \<in> set ts \<Longrightarrow> t = Inl e \<or> (\<exists>v. t = Inr v)) \<Longrightarrow> Inl e \<in> set ts \<Longrightarrow> sequence ts = Inl e"
proof (induction ts)
  case Nil
  then show ?case by simp
next
  case (Cons t ts)
  show ?case
  proof (cases t)
    case (Inl e')
    with Cons.prems(1) [of t] show ?thesis by simp
  next
    case (Inr v)
    with Cons.prems(2) have "Inl e \<in> set ts" by auto
    with Cons have "sequence ts = Inl e" by simp
    with Inr show ?thesis by simp
  qed
qed

lemma py_sum_Inl_mem: "py_sum ts = Inl e \<Longrightarrow> Inl e \<in> set ts"
  by (auto simp: py_sum_def split: sum.splits dest: sequence_Inl_mem)

lemma complement_sym_error: "complement_sym other c = Inl e \<Longrightarrow> e = KeyError"
  by (auto simp: complement_sym_def split: if_splits option.splits)

lemma complement_error: "complement other seq = Inl e \<Longrightarrow> e = KeyError"
  unfolding complement_def by (auto dest!: sequence_Inl_mem dest: complement_sym_error [OF sym])

lemma complement_length: "complement other seq = Inr cs \<Longrightarrow> length cs = length seq"
  unfolding complement_def by (auto dest: sequence_Inr_length)

lemma complement_dna:
  "set seq \<subseteq> set ''ACGT'' \<Longrightarrow> complement other seq = Inr (map dna_complement seq)"
  unfolding complement_def
  by (rule sequence_map_Inr) (auto simp: complement_sym_def dna_complement_def)

lemma log_odds_error: "log_odds m bg = Inl e \<Longrightarrow> e = KeyError"
  unfolding log_odds_def
  by (auto split: sum.splits option.splits dest!: sequence_Inl_mem)

lemma getitem_error: "getitem m c i = Inl e \<Longrightarrow> e = KeyError \<or> e = IndexError"
  by (auto simp: getitem_def split: option.splits if_splits)

lemma strand_score_error:
  "strand_score self seq cs i = Inl e \<Longrightarrow> e = KeyError \<or> e = IndexError"
  unfolding strand_score_def pssm_def str_index_def
  by (auto split: sum.splits if_splits dest: log_odds_error getitem_error)

lemma log_odds_ok:
  assumes "wf_matrix m" and "set (alphabet m) \<subseteq> dom bg"
  shows "log_odds m bg =
     Inr \<lparr>alphabet = alphabet m, mlength = mlength m,
          rows = (\<lambda>c. if c \<in> set (alphabet m)
                       then Some (map (\<lambda>p. log 2 (p / the (bg c))) (the (rows m c)))
                       else None)\<rparr>"
proof -
  have "sequence (map (\<lambda>lt. case bg lt of
                                  None \<Rightarrow> Inl KeyError
                                | Some b \<Rightarrow> (case rows m lt of
                                              None \<Rightarrow> Inl KeyError
                                            | Some r \<Rightarrow> Inr (map (\<lambda>p. log 2 (p / b)) r)))
                         (alphabet m))
      = Inr (map (\<lambda>lt. map (\<lambda>p. log 2 (p / the (bg lt))) (the (rows m lt))) (alphabet m))"
  proof (rule sequence_map_Inr)
    fix lt assume lt: "lt \<in> set (alphabet m)"
    with assms(2) obtain b where b: "bg lt = Some b" by blast
    from lt assms(1) have "lt \<in> dom (rows m)" by (simp add: wf_matrix_def)
    then obtain r where "rows m lt = Some r" by blast
    with b show "(case bg lt of
                                  None \<Rightarrow> Inl KeyError
                                | Some b \<Rightarrow> (case rows m lt of
                                              None \<Rightarrow> Inl KeyError
                                            | Some r \<Rightarrow> Inr (map (\<lambda>p. log 2 (p / b)) r)))
        = Inr (map (\<lambda>p. log 2 (p / the (bg lt))) (the (rows m lt)))"
      by simp
  qed
  then show ?thesis
    by (simp add: log_odds_def map_of_zip_map)
qed

lemma dna_model_pssm:
  assumes "dna_model self"
  shows "\<exists>ps. pssm self = Inr ps \<and> wf_matrix ps \<and> mlength ps = model_length self \<and>
           set (alphabet ps) = set ''ACGT'' \<and>
           (\<forall>c\<in>set ''ACGT''. \<forall>i<model_length self.
              entry ps c i = log 2 (entry (f_pwm self) c i / the (f_background self c)))"
proof -
  let ?m = "f_pwm self" and ?bg = "f_background self"
  let ?ps = "\<lparr>alphabet = alphabet ?m, mlength = mlength ?m,
          rows = (\<lambda>c. if c \<in> set (alphabet ?m)
                       then Some (map (\<lambda>p. log 2 (p / the (?bg c))) (the (rows ?m c)))
                       else None)\<rparr>"
  from assms have wf: "wf_matrix ?m" and al: "set (alphabet ?m) = set ''ACGT''"
    by (simp_all add: dna_model_def)
  from assms have "set ''ACGT'' \<subseteq> dom ?bg"
    unfolding dna_model_def by blast
  with al have "set (alphabet ?m) \<subseteq> dom ?bg" by simp
  then have ps: "pssm self = Inr ?ps"
    unfolding pssm_def background_def by (rule log_odds_ok [OF wf])
  have len: "length (the (rows ?m c)) = mlength ?m" if "c \<in> set (alphabet ?m)" for c
  proof -
    from that wf have "c \<in> dom (rows ?m)" by (simp add: wf_matrix_def)
    then obtain r where "rows ?m c = Some r" by blast
    with that wf show ?thesis by (simp add: wf_matrix_def)
  qed
  have wfps: "wf_matrix ?ps"
    using wf len by (auto simp: wf_matrix_def dom_def)
  have "entry ?ps c i = log 2 (entry ?m c i / the (?bg c))"
    if "c \<in> set ''ACGT''" "i < model_length self" for c i
  proof -
    from that al have c: "c \<in> set (alphabet ?m)" by simp
    with that len [OF c] show ?thesis by (simp add: entry_def model_length_def)
  qed
  with ps wfps al show ?thesis
    by (intro exI [of _ ?ps]) (simp add: model_length_def)
qed

lemma dna_complement_closed: "c \<in> set ''ACGT'' \<Longrightarrow> dna_complement c \<in> set ''ACGT''"
  by (auto simp: dna_complement_def)

lemma positive_skewed_pwm: "positive_entries skewed_pwm"
  by (simp add: positive_entries_def skewed_pwm_def)

lemma default_background_positive:
  "\<forall>c \<in> set ''ACGT''. \<exists>b. default_background c = Some b \<and> 0 < b"
proof -
  have "\<forall>c \<in> set ''ACGT''. default_background c = Some (1 / 4) \<and> (0 :: real) < 1 / 4"
    by (simp add: default_background_def)
  then show ?thesis by blast
qed

lemma dna_skewed_model: "dna_model skewed_model"
  unfolding dna_model_def
  using wf_skewed_pwm positive_skewed_pwm default_background_positive
  by (simp add: skewed_model_def) (simp add: skewed_pwm_def)

lemma model_length_skewed: "model_length skewed_model = 2"
  by (simp add: model_length_def skewed_model_def skewed_pwm_def)

lemma call_self_score:
  "call_scores_method other self ''self_score'' = self_score other self"
  by (simp add: call_scores_method_def BindingModel_attributes_def)

lemma lh_ratio_positive: "0 < lh_ratio g alpha scores"
  by (simp add: lh_ratio_def)

lemma estimator_odds_form:
  "estimator g alpha prior_m scores = 1 / (1 + lh_ratio g alpha scores * (prior_m / (1 - prior_m)))"
  by (simp add: estimator_def)

lemma estimator_strictly_decreasing:
  assumes "0 < p1" and "p1 < p2" and "p2 < 1"
  shows "estimator g alpha p2 scores < estimator g alpha p1 scores"
proof -
  define r where "r = lh_ratio g alpha scores"
  define o1 where "o1 = p1 / (1 - p1)"
  define o2 where "o2 = p2 / (1 - p2)"
  have r: "0 < r" unfolding r_def by (rule lh_ratio_positive)
  from assms have odds: "o1 < o2"
    unfolding o1_def o2_def by (simp add: field_simps)
  from assms have "0 < o1" unfolding o1_def by simp
  with r have "0 < r * o1" by (rule mult_pos_pos)
  then have pos: "0 < 1 + r * o1" by linarith
  from odds r have "r * o1 < r * o2" by (rule mult_strict_left_mono)
  then have "1 + r * o1 < 1 + r * o2" by linarith
  with pos have "1 / (1 + r * o2) < 1 / (1 + r * o1)"
    by (simp add: frac_less2)
  then show ?thesis
    unfolding estimator_odds_form r_def o1_def o2_def .
qed

lemma lh_ratio_same_fit: "lh_ratio (fit_gaussians xs xs) alpha scores = 1"
proof -
  have "lh_m (fit_gaussians xs xs) alpha s = lh_g (fit_gaussians xs xs) s" for s
    by (simp add: lh_m_def lh_g_def fit_gaussians_def algebra_simps)
  then show ?thesis by (simp add: lh_ratio_def)
qed

lemma fit_example:
  "fit_gaussians [0, 2] [0, 2] = \<lparr>mu_m = 1, std_m = 1, mu_g = 1, std_g = 1\<rparr>"
  by (simp add: fit_gaussians_def np_mean_def np_std_def)

lemma weighted_cell_column:
  "sum_list (map (\<lambda>s. weighted_cell pwms ws s i) A)
     = sum_list (map (\<lambda>(p, w). sum_list (map (\<lambda>s. entry p s i) A) * w) (zip pwms ws))"
  unfolding weighted_cell_def
proof (induction "zip pwms ws" arbitrary: pwms ws)
  case Nil
  then show ?case by (simp flip: Nil.hyps)
next
  case (Cons z zs)
  then obtain p ps w ws' where pw: "pwms = p # ps" "ws = w # ws'" "z = (p, w)" "zs = zip ps ws'"
    by (cases pwms; cases ws) auto
  from Cons.hyps(1) [OF pw(4)] show ?case
    by (simp add: pw sum_list_addf sum_list_mult_const)
qed

lemma PositionWeightMatrix_unfold:
  assumes A: "A \<noteq> []"
  shows "PositionWeightMatrix A (\<lambda>c. if c \<in> set A then Some (map (f c) [0..<L]) else None) =
     (if \<exists>i<L. sum_list (map (\<lambda>lt. f lt i) A) = 0 then Inl ZeroDivisionError
      else Inr \<lparr>alphabet = A, mlength = L,
                rows = (\<lambda>c. if c \<in> set A
                             then Some (map (\<lambda>i. f c i / sum_list (map (\<lambda>lt. f lt i) A)
                                                        ^ count_list A c) [0..<L])
                             else None)\<rparr>)"
proof -
  let ?vals = "\<lambda>c. if c \<in> set A then Some (map (f c) [0..<L]) else None"
  let ?rs = "map (\<lambda>lt. map (f lt) [0..<L]) A"
  let ?total = "\<lambda>i. sum_list (map (\<lambda>r. r ! i) ?rs)"
  from A obtain a as where "A = a # as" by (cases A) auto
  then have n: "(case A of [] \<Rightarrow> 0 | a # _ \<Rightarrow> (case ?vals a of None \<Rightarrow> 0 | Some r \<Rightarrow> length r)) = L"
    by simp
  have sq: "sequence (map (\<lambda>lt. case ?vals lt of
                                     None \<Rightarrow> Inl KeyError
                                   | Some r \<Rightarrow> if length r \<noteq> L then Inl Exception else Inr r) A)
      = Inr ?rs"
    by (rule sequence_map_Inr) simp
  have tot: "?total i = sum_list (map (\<lambda>lt. f lt i) A)" if "i < L" for i
    using that by (simp add: o_def)
  have ex: "list_ex (\<lambda>i. ?total i = 0) [0..<L] \<longleftrightarrow> (\<exists>i<L. sum_list (map (\<lambda>lt. f lt i) A) = 0)"
    using tot by (auto simp: list_ex_iff)
  have row: "map (\<lambda>i. map (f c) [0..<L] ! i / ?total i ^ count_list A c) [0..<L]
      = map (\<lambda>i. f c i / sum_list (map (\<lambda>lt. f lt i) A) ^ count_list A c) [0..<L]" for c
    using tot by (intro map_cong refl) simp
  have rows: "(\<lambda>c. if c \<in> set A
                    then map_option (\<lambda>r. map (\<lambda>i. r ! i / ?total i ^ count_list A c) [0..<L]) (?vals c)
                    else None)
      = (\<lambda>c. if c \<in> set A
                then Some (map (\<lambda>i. f c i / sum_list (map (\<lambda>lt. f lt i) A) ^ count_list A c) [0..<L])
                else None)"
  proof (rule ext)
    fix c
    show "(if c \<in> set A
           then map_option (\<lambda>r. map (\<lambda>i. r ! i / ?total i ^ count_list A c) [0..<L]) (?vals c)
           else None)
        = (if c \<in> set A
           then Some (map (\<lambda>i. f c i / sum_list (map (\<lambda>lt. f lt i) A) ^ count_list A c) [0..<L])
           else None)"
    proof (cases "c \<in> set A")
      case True
      then show ?thesis by (simp only: if_True option.map row)
    next
      case False
      then show ?thesis by (simp only: if_False)
    qed
  qed
  show ?thesis
    unfolding PositionWeightMatrix_def n Let_def sq sum.case ex rows ..
qed

lemma PositionWeightMatrix_normalised:
  assumes "A \<noteq> []" and "\<forall>i<L. sum_list (map (\<lambda>lt. f lt i) A) = 1"
  shows "PositionWeightMatrix A (\<lambda>c. if c \<in> set A then Some (map (f c) [0..<L]) else None) =
     Inr \<lparr>alphabet = A, mlength = L,
          rows = (\<lambda>c. if c \<in> set A then Some (map (f c) [0..<L]) else None)\<rparr>"
proof -
  have row: "map (\<lambda>i. f c i / sum_list (map (\<lambda>lt. f lt i) A) ^ count_list A c) [0..<L]
      = map (f c) [0..<L]" for c
  proof (rule map_cong [OF refl])
    fix i assume "i \<in> set [0..<L]"
    then have "i < L" by simp
    with assms(2) have "sum_list (map (\<lambda>lt. f lt i) A) = 1" by blast
    then show "f c i / sum_list (map (\<lambda>lt. f lt i) A) ^ count_list A c = f c i" by simp
  qed
  have no: "\<not> (\<exists>i<L. sum_list (map (\<lambda>lt. f lt i) A) = 0)"
    using assms(2) by auto
  show ?thesis
    unfolding PositionWeightMatrix_unfold [OF assms(1)] row using no by (simp only: if_False)
qed

lemma PositionWeightMatrix_zero_column:
  assumes "A \<noteq> []" and "\<exists>i<L. sum_list (map (\<lambda>lt. f lt i) A) = 0"
  shows "PositionWeightMatrix A (\<lambda>c. if c \<in> set A then Some (map (f c) [0..<L]) else None) =
     Inl ZeroDivisionError"
  using assms(2) by (simp add: PositionWeightMatrix_unfold [OF assms(1)])

lemma PositionWeightMatrix_cases:
  assumes "A \<noteq> []"
  shows "PositionWeightMatrix A (\<lambda>c. if c \<in> set A then Some (map (f c) [0..<L]) else None) =
           Inl ZeroDivisionError \<or>
         (\<exists>m. PositionWeightMatrix A (\<lambda>c. if c \<in> set A then Some (map (f c) [0..<L]) else None) =
           Inr m)"
  by (simp add: PositionWeightMatrix_unfold [OF assms])

lemma combine_pwms_ok:
  assumes ne: "pwms \<noteq> []"
    and same: "\<forall>p\<in>set pwms. wf_matrix p \<and> mlength p = L \<and> alphabet p = A"
    and nw: "normalize_weights weights = Inr ws"
  shows "combine_pwms pwms weights =
     PositionWeightMatrix A
       (\<lambda>c. if c \<in> set A then Some (map (weighted_cell pwms ws c) [0..<L]) else None)"
proof -
  from ne obtain p0 ps where pw: "pwms = p0 # ps" by (cases pwms) auto
  with same have p0: "wf_matrix p0" "mlength p0 = L" "alphabet p0 = A" by auto
  from same p0 have l1: "list_all (\<lambda>pwm. mlength p0 = mlength pwm) pwms"
    and l2: "list_all (\<lambda>pwm. alphabet p0 = alphabet pwm) pwms"
    by (auto simp: list_all_iff)
  have row: "sequence (map (combine_cell pwms ws lt) [0..<L]) = Inr (map (weighted_cell pwms ws lt) [0..<L])"
    if "lt \<in> set A" for lt
    using that same by (intro sequence_map_Inr combine_cell_Inr[where L=L and A=A]) auto
  have all: "sequence (map (\<lambda>lt. sequence (map (combine_cell pwms ws lt) [0..<L])) A)
      = Inr (map (\<lambda>lt. map (weighted_cell pwms ws lt) [0..<L]) A)"
    by (rule sequence_map_Inr) (rule row)
  have "combine_pwms pwms weights =
     PositionWeightMatrix A (map_of (zip A (map (\<lambda>lt. map (weighted_cell pwms ws lt) [0..<L]) A)))"
    using l1 l2 nw all p0(2,3) unfolding combine_pwms_def pw
    by simp
  then show ?thesis
    by (simp add: map_of_zip_map)
qed

lemma column_sum_entry: "column_sum p i = sum_list (map (\<lambda>s. entry p s i) (alphabet p))"
  by (simp add: column_sum_def entry_def)

lemma sum_list_normalised:
  assumes "sum_list weights \<noteq> (0 :: real)"
  shows "sum_list (map (\<lambda>w. w / sum_list weights) weights) = 1"
proof -
  have "sum_list (map (\<lambda>w. w / sum_list weights) weights)
      = sum_list (map (\<lambda>w. w * inverse (sum_list weights)) weights)"
    by (simp add: divide_inverse)
  also have "\<dots> = sum_list weights * inverse (sum_list weights)"
    by (simp add: sum_list_mult_const)
  finally show ?thesis using assms by simp
qed

lemma weighted_cell_column_one:
  assumes same: "\<forall>p\<in>set pwms. wf_pwm p \<and> mlength p = L \<and> alphabet p = A"
    and lws: "length ws = length pwms"
    and total: "sum_list ws = 1"
    and i: "i < L"
  shows "sum_list (map (\<lambda>s. weighted_cell pwms ws s i) A) = 1"
proof -
  have "sum_list (map (\<lambda>s. weighted_cell pwms ws s i) A)
      = sum_list (map (\<lambda>(p, w). sum_list (map (\<lambda>s. entry p s i) A) * w) (zip pwms ws))"
    by (rule weighted_cell_column)
  also have "\<dots> = sum_list (map snd (zip pwms ws))"
  proof (rule arg_cong [where f = sum_list], rule map_cong [OF refl])
    fix z assume "z \<in> set (zip pwms ws)"
    then obtain p w where z: "z = (p, w)" and p: "p \<in> set pwms"
      by (metis prod.exhaust set_zip_leftD)
    with same i have "column_sum p i = 1" and "alphabet p = A"
      by (auto simp: wf_pwm_def)
    then have "sum_list (map (\<lambda>s. entry p s i) A) = 1"
      by (simp add: column_sum_entry)
    with z show "(case z of (p, w) \<Rightarrow> sum_list (map (\<lambda>s. entry p s i) A) * w) = snd z"
      by simp
  qed
  also have "\<dots> = sum_list ws" using lws by (simp add: map_snd_zip)
  finally show ?thesis using total by simp
qed

lemma combine_pwms_matched:
  assumes ne: "pwms \<noteq> []"
    and same: "\<forall>p\<in>set pwms. wf_pwm p \<and> mlength p = L \<and> alphabet p = A"
    and len: "length weights = length pwms"
    and nz: "sum_list weights \<noteq> 0"
  shows "combine_pwms pwms weights =
     Inr \<lparr>alphabet = A, mlength = L,
          rows = (\<lambda>c. if c \<in> set A
                       then Some (map (weighted_cell pwms
                                         (map (\<lambda>w. w / sum_list weights) weights) c) [0..<L])
                       else None)\<rparr>"
proof -
  let ?ws = "map (\<lambda>w. w / sum_list weights) weights"
  from same have same': "\<forall>p\<in>set pwms. wf_matrix p \<and> mlength p = L \<and> alphabet p = A"
    by (simp add: wf_pwm_def)
  from ne same' have "wf_matrix (hd pwms)" "alphabet (hd pwms) = A" by simp_all
  then have A: "A \<noteq> []" by (auto simp: wf_matrix_def)
  have nw: "normalize_weights weights = Inr ?ws"
    using nz by (simp add: normalize_weights_nonzero)
  have "\<forall>i<L. sum_list (map (\<lambda>s. weighted_cell pwms ?ws s i) A) = 1"
    using weighted_cell_column_one [OF same _ sum_list_normalised [OF nz]] len by simp
  then show ?thesis
    unfolding combine_pwms_ok [OF ne same' nw] by (rule PositionWeightMatrix_normalised [OF A])
qed

lemma weighted_cell_no_weights: "weighted_cell pwms [] s i = 0"
  by (simp add: weighted_cell_def)

lemma combine_pwms_no_weights:
  assumes ne: "pwms \<noteq> []"
    and same: "\<forall>p\<in>set pwms. wf_matrix p \<and> mlength p = L \<and> alphabet p = A"
    and L: "0 < L"
  shows "combine_pwms pwms [] = Inl ZeroDivisionError"
proof -
  from ne same have "wf_matrix (hd pwms)" "alphabet (hd pwms) = A" by simp_all
  then have A: "A \<noteq> []" by (auto simp: wf_matrix_def)
  have "\<exists>i<L. sum_list (map (\<lambda>s. weighted_cell pwms [] s i) A) = 0"
    using L by (auto simp: weighted_cell_no_weights)
  then show ?thesis
    unfolding combine_pwms_ok [OF ne same normalize_weights_Nil]
    by (rule PositionWeightMatrix_zero_column [OF A])
qed

lemma combine_pwms_same_cases:
  assumes ne: "pwms \<noteq> []"
    and same: "\<forall>p\<in>set pwms. wf_matrix p \<and> mlength p = L \<and> alphabet p = A"
  shows "combine_pwms pwms weights = Inl ZeroDivisionError \<or>
         (\<exists>c. combine_pwms pwms weights = Inr c)"
proof -
  from ne same have "wf_matrix (hd pwms)" "alphabet (hd pwms) = A" by simp_all
  then have A: "A \<noteq> []" by (auto simp: wf_matrix_def)
  from ne obtain p0 ps where pw: "pwms = p0 # ps" by (cases pwms) auto
  from normalize_weights_cases [of weights] show ?thesis
  proof
    assume "normalize_weights weights = Inl ZeroDivisionError"
    then have "combine_pwms pwms weights = Inl ZeroDivisionError"
      using same unfolding combine_pwms_def pw by (simp add: list_all_iff)
    then show ?thesis ..
  next
    assume "\<exists>ws. normalize_weights weights = Inr ws"
    then obtain ws where nw: "normalize_weights weights = Inr ws" ..
    show ?thesis
      unfolding combine_pwms_ok [OF ne same nw] by (rule PositionWeightMatrix_cases [OF A])
  qed
qed

lemma wf_pwm_uniform: "wf_pwm uniform_pwm"
  using wf_uniform_pwm
  by (simp add: wf_pwm_def column_sum_def) (simp add: uniform_pwm_def less_Suc_eq numeral_2_eq_2)

lemma wf_pwm_skewed: "wf_pwm skewed_pwm"
  using wf_skewed_pwm
  by (simp add: wf_pwm_def column_sum_def) (simp add: skewed_pwm_def less_Suc_eq numeral_2_eq_2)

lemma wf_pwm_short: "wf_pwm short_pwm"
  using wf_short_pwm
  by (simp add: wf_pwm_def column_sum_def) (simp add: short_pwm_def)

text \<open>
  The closure of lines 97-105, with its fitted parameters given: the likelihood ratio is
  positive, and the output falls when \<open>prior_m\<close> grows, since the ratio is multiplied
  by \<open>prior_m / prior_g\<close>. With both Gaussians fitted to the scores 0 and 2, mixing
  ratio 1/350 and the score vector [1], the prior 1/4 gives 3/4 and the prior 1/2 gives
  1/2. No call of \<^verbatim>\<open>bayesian_estimator\<close> returns this closure (see
  \<open>bayesian_estimator\<close> above and the theorem on it below).
\<close>

lemma estimator_prior_evaluation:
  "estimator (fit_gaussians [0, 2] [0, 2]) (1 / 350) (1 / 4) [1] = 3 / 4 \<and>
   estimator (fit_gaussians [0, 2] [0, 2]) (1 / 350) (1 / 2) [1] = 1 / 2"
  by (simp add: estimator_def lh_ratio_same_fit)

text \<open>Calls on the object: what a generator of calls does, and each method in turn.\<close>

lemma sequence_calls_frame:
  "(\<And>c. c \<in> set cs \<Longrightarrow> snd (c self) = self) \<Longrightarrow> snd (sequence_calls cs self) = self"
proof (induction cs)
  case Nil
  then show ?case by simp
next
  case (Cons c cs)
  from Cons.prems [of c] have c: "snd (c self) = self" by simp
  from Cons have rest: "snd (sequence_calls cs self) = self" by simp
  obtain r where r: "c self = (r, self)" using c by (cases "c self") simp
  obtain q where q: "sequence_calls cs self = (q, self)"
    using rest by (cases "sequence_calls cs self") simp
  show ?case
    by (cases r; cases q) (simp_all add: r q)
qed

lemma sequence_calls_pure:
  "(\<And>x. x \<in> set xs \<Longrightarrow> g x self = (f x, self)) \<Longrightarrow>
   sequence_calls (map g xs) self = (sequence (map f xs), self)"
proof (induction xs)
  case Nil
  then show ?case by simp
next
  case (Cons x xs)
  from Cons.prems [of x] have c: "g x self = (f x, self)" by simp
  from Cons have rest: "sequence_calls (map g xs) self = (sequence (map f xs), self)" by simp
  show ?case
    by (cases "f x"; cases "sequence (map f xs)") (simp_all add: c rest)
qed

lemma call_pssm_frame:
  assumes "leaves_arguments lib"
  shows "snd (call_pssm lib self) = self"
proof -
  obtain r m' bg' where l: "lib_log_odds lib (f_pwm self) (f_background self) = (r, m', bg')"
    by (cases "lib_log_odds lib (f_pwm self) (f_background self)") auto
  with assms have "m' = f_pwm self" "bg' = f_background self"
    unfolding leaves_arguments_def by (metis snd_conv prod.inject)+
  with l show ?thesis
    by (simp add: call_pssm_def call_background_def)
qed

lemma call_strand_score_frame:
  assumes "leaves_arguments lib"
  shows "snd (call_strand_score lib seq cs i self) = self"
proof -
  obtain r where r: "call_pssm lib self = (r, self)"
    using call_pssm_frame [OF assms, of self] by (cases "call_pssm lib self") simp
  show ?thesis
    unfolding call_strand_score_def r
    by (simp split: sum.splits add: r)
qed

lemma call_score_seq_frame:
  assumes "leaves_arguments lib"
  shows "snd (call_score_seq lib other seq self) = self"
proof -
  have fr: "snd (sequence_calls (map (call_strand_score lib seq cs) [0..<length seq]) self) = self"
    for cs
    by (rule sequence_calls_frame) (auto simp: call_strand_score_frame [OF assms])
  show ?thesis
  proof (cases "complement other seq")
    case (Inl e)
    then show ?thesis by (simp add: call_score_seq_def call_length_def)
  next
    case (Inr cs)
    obtain q where q: "sequence_calls (map (call_strand_score lib seq cs) [0..<length seq]) self
        = (q, self)"
      using fr [of cs] by (metis prod.collapse)
    show ?thesis
      by (cases q) (simp_all add: call_score_seq_def call_length_def Inr q)
  qed
qed

lemma call_self_score_frame:
  assumes "leaves_arguments lib"
  shows "snd (call_self_score lib other self) = self"
  unfolding call_self_score_def call_sites_def
  by (simp, rule sequence_calls_frame) (auto simp: call_score_seq_frame [OF assms])


lemma computes_leaves: "computes_log_odds lib \<Longrightarrow> leaves_arguments lib"
  by (simp add: computes_log_odds_def leaves_arguments_def)

lemma call_pssm_pure:
  "computes_log_odds lib \<Longrightarrow> call_pssm lib self = (pssm self, self)"
  by (simp add: call_pssm_def call_background_def computes_log_odds_def pssm_def background_def)

lemma call_strand_score_pure:
  assumes "computes_log_odds lib"
  shows "call_strand_score lib seq cs i self = (strand_score self seq cs i, self)"
  unfolding call_strand_score_def strand_score_def call_pssm_pure [OF assms]
  by (simp split: sum.splits)

lemma call_score_seq_pure:
  assumes "computes_log_odds lib"
  shows "call_score_seq lib other seq self = (score_seq other self seq, self)"
proof -
  have sq: "sequence_calls (map (call_strand_score lib seq cs) [0..<length seq]) self
      = (sequence (map (strand_score self seq cs) [0..<length seq]), self)" for cs
    by (rule sequence_calls_pure) (rule call_strand_score_pure [OF assms])
  show ?thesis
    unfolding call_score_seq_def score_seq_def call_length_def model_length_def py_sum_def
    by (simp add: sq split: sum.splits)
qed

lemma call_self_score_pure:
  assumes "computes_log_odds lib"
  shows "call_self_score lib other self = (self_score other self, self)"
proof -
  have "sequence_calls (map (call_score_seq lib other) (sites self)) self
      = (sequence (map (score_seq other self) (sites self)), self)"
    by (rule sequence_calls_pure) (rule call_score_seq_pure [OF assms])
  then show ?thesis
    by (simp add: call_self_score_def call_sites_def self_score_def sites_def)
qed

lemma leaves_quiet_library: "leaves_arguments (quiet_library mean threshold)"
  by (simp add: leaves_arguments_def quiet_library_def)

lemma computes_quiet_library: "computes_log_odds (quiet_library mean threshold)"
  by (simp add: computes_log_odds_def quiet_library_def)

text \<open>
  The model does tell a library that changes what it is handed from one that does not:
  with a \<^verbatim>\<open>log_odds\<close> that rescales the background dict in place, asking for the
  PSSM of a model whose background gives 1/2 to each letter leaves 1/4 in the field.
\<close>

lemma rescaling_library_changes_background:
  "f_background (snd (call_pssm (rescaling_library mean threshold)
                        (skewed_model\<lparr>f_background := doubled_background\<rparr>))) (CHR ''A'')
     = Some (1 / 4) \<and>
   f_background (skewed_model\<lparr>f_background := doubled_background\<rparr>) (CHR ''A'') = Some (1 / 2)"
  by (simp add: call_pssm_def call_background_def rescaling_library_def skewed_model_def
      skewed_pwm_def doubled_background_def)

section \<open>Weight invariance to scale\<close>

text \<open>
  Claim C8. Multiplying every weight by the same positive scalar leaves the result of
  the combination unchanged, whatever the list of PWMs and the weights are (an error,
  when there is one, is the same error as well); weights (10, 10) against (1, 1) are the
  instance with scalar 10.
\<close>

theorem combine_pwms_scale_invariant:
  "0 < c \<Longrightarrow> combine_pwms pwms (map (\<lambda>w. c * w) weights) = combine_pwms pwms weights"
proof -
  assume "0 < c"
  then have "normalize_weights (map (\<lambda>w. c * w) weights) = normalize_weights weights"
    by (intro normalize_weights_scale) simp
  then show ?thesis
    unfolding combine_pwms_def by (simp only:)
qed

theorem combine_pwms_scale_invariant_witness:
  "0 < (10::real) \<and>
   map_sum id table (combine_pwms [uniform_pwm, skewed_pwm] (map (\<lambda>w. 10 * w) [1, 1])) =
     map_sum id table (combine_pwms [uniform_pwm, skewed_pwm] [1, 1]) \<and>
   map_sum id table (combine_pwms [uniform_pwm, skewed_pwm] [10, 10]) =
     Inr [(CHR ''A'', Some [3 / 8, 3 / 16]), (CHR ''C'', Some [1 / 4, 3 / 16]),
          (CHR ''G'', Some [3 / 16, 1 / 4]), (CHR ''T'', Some [3 / 16, 3 / 8])]"
proof -
  have "combine_pwms [uniform_pwm, skewed_pwm] (map (\<lambda>w. 10 * w) [1, 1])
      = combine_pwms [uniform_pwm, skewed_pwm] [1, 1]"
    by (rule combine_pwms_scale_invariant) simp
  moreover have "map_sum id table (combine_pwms [uniform_pwm, skewed_pwm] [10, 10]) =
     Inr [(CHR ''A'', Some [3 / 8, 3 / 16]), (CHR ''C'', Some [1 / 4, 3 / 16]),
          (CHR ''G'', Some [3 / 16, 1 / 4]), (CHR ''T'', Some [3 / 16, 3 / 8])]"
    by (simp add: combine_pwms_def uniform_pwm_def skewed_pwm_def normalize_weights_def
         combine_cell_def py_sum_def getitem_def PositionWeightMatrix_def table_def upt_conv_Cons)
  ultimately show ?thesis by simp
qed

section \<open>The combination is the weighted average\<close>

text \<open>
  Claim C3. For a non-empty list of PWMs (matrix objects of the library, so with columns
  that sum to 1) that share the length \<open>L\<close> and the alphabet \<open>A\<close>, and as many weights
  with a non-zero sum, \<^verbatim>\<open>_combine_pwms\<close> returns a PWM of length \<open>L\<close> over \<open>A\<close> whose
  entry at every symbol of \<open>A\<close> and position below \<open>L\<close> is the sum over the inputs of
  their entry times weight / sum of the weights; when all the inputs are one and the
  same PWM, the result is that PWM.
\<close>

theorem combine_pwms_weighted_average:
  assumes ne: "pwms \<noteq> []"
    and same: "\<forall>p\<in>set pwms. wf_pwm p \<and> mlength p = L \<and> alphabet p = A"
    and len: "length weights = length pwms"
    and nz: "sum_list weights \<noteq> 0"
  shows "\<exists>c. combine_pwms pwms weights = Inr c \<and> wf_pwm c \<and> mlength c = L \<and> alphabet c = A \<and>
           (\<forall>s\<in>set A. \<forall>i<L. getitem c s i =
              Inr (\<Sum>k<length pwms. entry (pwms ! k) s i * (weights ! k / sum_list weights))) \<and>
           ((\<forall>p\<in>set pwms. p = hd pwms) \<longrightarrow> c = hd pwms)"
proof -
  define ws where "ws = map (\<lambda>w. w / sum_list weights) weights"
  define c where "c = \<lparr>alphabet = A, mlength = L,
     rows = (\<lambda>s. if s \<in> set A then Some (map (weighted_cell pwms ws s) [0..<L]) else None)\<rparr>"
  have res: "combine_pwms pwms weights = Inr c"
    unfolding c_def ws_def by (rule combine_pwms_matched [OF ne same len nz])
  from ne same have hd: "wf_matrix (hd pwms)" "mlength (hd pwms) = L" "alphabet (hd pwms) = A"
    by (simp_all add: wf_pwm_def)
  then have A: "A \<noteq> []" by (auto simp: wf_matrix_def)
  have wfm: "wf_matrix c"
    using A by (auto simp: wf_matrix_def c_def dom_def)
  have lws: "length ws = length pwms" using len by (simp add: ws_def)
  have "column_sum c i = 1" if "i < L" for i
  proof -
    have "map (\<lambda>s. entry c s i) A = map (\<lambda>s. weighted_cell pwms ws s i) A"
      using that by (intro map_cong refl) (simp add: entry_def c_def)
    moreover have "alphabet c = A" by (simp add: c_def)
    ultimately have "column_sum c i = sum_list (map (\<lambda>s. weighted_cell pwms ws s i) A)"
      by (simp only: column_sum_entry)
    also have "\<dots> = 1"
      using weighted_cell_column_one [OF same lws _ that] sum_list_normalised [OF nz]
      by (simp add: ws_def)
    finally show ?thesis .
  qed
  with wfm have wf: "wf_pwm c" by (simp add: wf_pwm_def c_def)
  have cell: "getitem c s i =
      Inr (\<Sum>k<length pwms. entry (pwms ! k) s i * (weights ! k / sum_list weights))"
    if "s \<in> set A" "i < L" for s i
  proof -
    have "getitem c s i = Inr (weighted_cell pwms ws s i)"
      using that by (simp add: getitem_def c_def)
    also have "weighted_cell pwms ws s i = (\<Sum>k<length pwms. entry (pwms ! k) s i * ws ! k)"
      by (rule weighted_cell_sum [OF lws])
    also have "\<dots> = (\<Sum>k<length pwms. entry (pwms ! k) s i * (weights ! k / sum_list weights))"
      using len by (intro sum.cong) (simp_all add: ws_def)
    finally show ?thesis .
  qed
  have idem: "c = hd pwms" if all: "\<forall>p\<in>set pwms. p = hd pwms"
  proof -
    have "rows c s = rows (hd pwms) s" for s
    proof (cases "s \<in> set A")
      case False
      with hd have "rows (hd pwms) s = None" by (auto simp: wf_matrix_def)
      with False show ?thesis by (simp add: c_def)
    next
      case True
      with hd have "s \<in> dom (rows (hd pwms))" by (simp add: wf_matrix_def)
      then obtain r where r1: "rows (hd pwms) s = Some r" by blast
      with hd True have "length r = L" by (simp add: wf_matrix_def)
      note r = r1 this
      have "map (weighted_cell pwms ws s) [0..<L] = r"
      proof (rule nth_equalityI)
        show "length (map (weighted_cell pwms ws s) [0..<L]) = length r" using r by simp
      next
        fix i assume "i < length (map (weighted_cell pwms ws s) [0..<L])"
        then have i: "i < L" by simp
        have "weighted_cell pwms ws s i = entry (hd pwms) s i"
          unfolding ws_def by (rule weighted_cell_replicate [OF all len nz])
        with i r show "map (weighted_cell pwms ws s) [0..<L] ! i = r ! i"
          by (simp add: entry_def)
      qed
      with True r show ?thesis by (simp add: c_def)
    qed
    then have "rows c = rows (hd pwms)" by (rule ext)
    with hd show ?thesis by (simp add: c_def)
  qed
  from res wf cell idem show ?thesis
    by (intro exI [of _ c]) (simp add: c_def)
qed

theorem combine_pwms_weighted_average_witness:
  "[skewed_pwm, skewed_pwm] \<noteq> [] \<and> wf_pwm skewed_pwm \<and> mlength skewed_pwm = 2 \<and>
   alphabet skewed_pwm = ''ACGT'' \<and> length [1, 3 :: real] = length [skewed_pwm, skewed_pwm] \<and>
   sum_list [1, 3 :: real] \<noteq> 0 \<and>
   combine_pwms [skewed_pwm, skewed_pwm] [1, 3] = Inr skewed_pwm"
proof -
  have h: "\<forall>p\<in>set [skewed_pwm, skewed_pwm].
      wf_pwm p \<and> mlength p = 2 \<and> alphabet p = ''ACGT''"
    by (simp add: wf_pwm_skewed) (simp add: skewed_pwm_def)
  have "\<exists>c. combine_pwms [skewed_pwm, skewed_pwm] [1, 3] = Inr c \<and> c = skewed_pwm"
    using combine_pwms_weighted_average [OF _ h, of "[1, 3]"] by auto
  then show ?thesis
    using h by simp
qed

section \<open>Failure modes of the combination\<close>

text \<open>
  Claim C4, as the code has it. For a non-empty list of PWMs, \<^verbatim>\<open>_combine_pwms\<close>
  fails with an assertion error exactly when a PWM differs from the first one in length
  or in alphabet, whatever the weights are: the number of weights is never compared with
  the number of PWMs. When lengths and alphabets agree, weights that sum to zero fail by
  division by zero (for an empty weight list the division is the constructor's, on an
  all-zero column, so the PWMs must have a position), and as many weights as PWMs with a
  non-zero sum give a PWM.
\<close>

theorem combine_pwms_failure_modes:
  assumes ne: "pwms \<noteq> []" and wf: "\<forall>p\<in>set pwms. wf_pwm p"
  shows "(combine_pwms pwms weights = Inl AssertionError \<longleftrightarrow>
            (\<exists>p\<in>set pwms. mlength p \<noteq> mlength (hd pwms) \<or> alphabet p \<noteq> alphabet (hd pwms))) \<and>
         ((\<forall>p\<in>set pwms. mlength p = mlength (hd pwms) \<and> alphabet p = alphabet (hd pwms)) \<and>
            sum_list weights = 0 \<and> (weights \<noteq> [] \<or> 0 < mlength (hd pwms)) \<longrightarrow>
            combine_pwms pwms weights = Inl ZeroDivisionError) \<and>
         ((\<forall>p\<in>set pwms. mlength p = mlength (hd pwms) \<and> alphabet p = alphabet (hd pwms)) \<and>
            length weights = length pwms \<and> sum_list weights \<noteq> 0 \<longrightarrow>
            (\<exists>c. combine_pwms pwms weights = Inr c))"
proof (cases "\<forall>p\<in>set pwms. mlength p = mlength (hd pwms) \<and> alphabet p = alphabet (hd pwms)")
  case False
  then have "combine_pwms pwms weights = Inl AssertionError"
    using ne by (intro combine_pwms_assertion) auto
  with False show ?thesis by auto
next
  case True
  with wf have same: "\<forall>p\<in>set pwms. wf_pwm p \<and> mlength p = mlength (hd pwms)
      \<and> alphabet p = alphabet (hd pwms)"
    by simp
  then have same': "\<forall>p\<in>set pwms. wf_matrix p \<and> mlength p = mlength (hd pwms)
      \<and> alphabet p = alphabet (hd pwms)"
    by (simp add: wf_pwm_def)
  from ne obtain p0 ps where pw: "pwms = p0 # ps" by (cases pwms) auto
  have "combine_pwms pwms weights \<noteq> Inl AssertionError"
    using combine_pwms_same_cases [OF ne same', of weights] by auto
  moreover have "combine_pwms pwms weights = Inl ZeroDivisionError"
    if z: "sum_list weights = 0" and w: "weights \<noteq> [] \<or> 0 < mlength (hd pwms)"
  proof (cases "weights = []")
    case True
    with w have "0 < mlength (hd pwms)" by simp
    with True show ?thesis by (simp add: combine_pwms_no_weights [OF ne same'])
  next
    case False
    then have "normalize_weights weights = Inl ZeroDivisionError"
      using z by (rule normalize_weights_zero)
    then show ?thesis
      using True unfolding combine_pwms_def pw by (simp add: list_all_iff)
  qed
  moreover have "\<exists>c. combine_pwms pwms weights = Inr c"
    if "length weights = length pwms" "sum_list weights \<noteq> 0"
    using combine_pwms_matched [OF ne same that] by blast
  ultimately show ?thesis using True by blast
qed

theorem combine_pwms_failure_modes_witness:
  "combine_pwms [uniform_pwm, short_pwm] [1, 1] = Inl AssertionError \<and>
   combine_pwms [uniform_pwm, skewed_pwm] [1, -1] = Inl ZeroDivisionError \<and>
   combine_pwms [uniform_pwm, skewed_pwm] [] = Inl ZeroDivisionError \<and>
   (\<exists>c. combine_pwms [uniform_pwm, skewed_pwm] [1, 1] = Inr c)"
proof -
  have wf1: "\<forall>p\<in>set [uniform_pwm, short_pwm]. wf_pwm p"
    and wf2: "\<forall>p\<in>set [uniform_pwm, skewed_pwm]. wf_pwm p"
    by (simp_all add: wf_pwm_uniform wf_pwm_short wf_pwm_skewed)
  have same: "\<forall>p\<in>set [uniform_pwm, skewed_pwm].
      mlength p = mlength (hd [uniform_pwm, skewed_pwm]) \<and>
      alphabet p = alphabet (hd [uniform_pwm, skewed_pwm])"
    by (simp add: uniform_pwm_def skewed_pwm_def)
  have differ: "\<exists>p\<in>set [uniform_pwm, short_pwm].
      mlength p \<noteq> mlength (hd [uniform_pwm, short_pwm]) \<or>
      alphabet p \<noteq> alphabet (hd [uniform_pwm, short_pwm])"
    by (simp add: uniform_pwm_def short_pwm_def)
  have pos: "0 < mlength (hd [uniform_pwm, skewed_pwm])"
    by (simp add: uniform_pwm_def)
  have ne1: "[uniform_pwm, short_pwm] \<noteq> []" and ne2: "[uniform_pwm, skewed_pwm] \<noteq> []"
    by simp_all
  have a: "combine_pwms [uniform_pwm, short_pwm] [1, 1] = Inl AssertionError"
    using combine_pwms_failure_modes [OF ne1 wf1, of "[1, 1]"] differ by blast
  have "sum_list [1, -1 :: real] = 0 \<and> [1, -1 :: real] \<noteq> []" by simp
  then have z: "combine_pwms [uniform_pwm, skewed_pwm] [1, -1] = Inl ZeroDivisionError"
    using combine_pwms_failure_modes [OF ne2 wf2, of "[1, -1]"] same by blast
  have "sum_list ([] :: real list) = 0" by simp
  then have e: "combine_pwms [uniform_pwm, skewed_pwm] [] = Inl ZeroDivisionError"
    using combine_pwms_failure_modes [OF ne2 wf2, of "[]"] same pos by blast
  have "length [1, 1 :: real] = length [uniform_pwm, skewed_pwm] \<and> sum_list [1, 1 :: real] \<noteq> 0"
    by simp
  then have r: "\<exists>c. combine_pwms [uniform_pwm, skewed_pwm] [1, 1] = Inr c"
    using combine_pwms_failure_modes [OF ne2 wf2, of "[1, 1]"] same by blast
  from a z e r show ?thesis by blast
qed

text \<open>
  Claim C4 as stated fails where it says that a weight list of another length than the
  PWM list is an assertion failure: two weights for one PWM are normalised to a half
  each, \<open>zip\<close> pairs the PWM with the first of them, the constructor divides the halved
  column by its total, and the PWM itself comes back.
\<close>

theorem combine_pwms_weights_mismatch_counterexample:
  "length [1, 1 :: real] \<noteq> length [short_pwm] \<and>
   combine_pwms [short_pwm] [1, 1] \<noteq> Inl AssertionError \<and>
   map_sum id table (combine_pwms [short_pwm] [1, 1]) =
     Inr [(CHR ''A'', Some [1 / 4]), (CHR ''C'', Some [1 / 4]),
          (CHR ''G'', Some [1 / 4]), (CHR ''T'', Some [1 / 4])]"
  by (simp add: combine_pwms_def short_pwm_def normalize_weights_def
         combine_cell_def py_sum_def getitem_def PositionWeightMatrix_def table_def)

section \<open>The length precondition of scoring\<close>

text \<open>
  Claim C7. \<^verbatim>\<open>score_seq\<close> raises an assertion error whenever the length of the sequence
  differs from the length of the combined PWM, and when the lengths are equal the
  assertion passes: whatever happens afterwards is not an assertion error.
\<close>

theorem score_seq_length_assertion:
  "(length seq \<noteq> model_length self \<longrightarrow> score_seq other self seq = Inl AssertionError) \<and>
   (length seq = model_length self \<longrightarrow> score_seq other self seq \<noteq> Inl AssertionError)"
proof (intro conjI impI)
  assume "length seq \<noteq> model_length self"
  then show "score_seq other self seq = Inl AssertionError"
    by (auto simp: score_seq_def)
next
  assume eq: "length seq = model_length self"
  show "score_seq other self seq \<noteq> Inl AssertionError"
  proof
    assume a: "score_seq other self seq = Inl AssertionError"
    show False
    proof (cases "complement other seq")
      case (Inl e)
      with a eq have "e = AssertionError" by (simp add: score_seq_def)
      with Inl show False by (auto dest: complement_error)
    next
      case (Inr cs)
      with a eq have "py_sum (map (strand_score self seq cs) [0..<length seq]) = Inl AssertionError"
        by (simp add: score_seq_def)
      then have "Inl AssertionError \<in> set (map (strand_score self seq cs) [0..<length seq])"
        by (rule py_sum_Inl_mem)
      then obtain i where "strand_score self seq cs i = Inl AssertionError" by auto
      then show False by (auto dest: strand_score_error)
    qed
  qed
qed

theorem score_seq_length_assertion_witness:
  "length ''A'' \<noteq> model_length skewed_model \<and>
   score_seq (\<lambda>c. None) skewed_model ''A'' = Inl AssertionError \<and>
   length ''AG'' = model_length skewed_model \<and>
   score_seq (\<lambda>c. None) skewed_model ''AG'' \<noteq> Inl AssertionError"
  using score_seq_length_assertion [of "''A''" skewed_model "\<lambda>c. None"]
    score_seq_length_assertion [of "''AG''" skewed_model "\<lambda>c. None"]
  by (simp add: model_length_skewed)

section \<open>The score of a sequence\<close>

text \<open>
  Claim C5. For a model over the DNA alphabet and a sequence over A, C, G, T of the
  model's length, \<^verbatim>\<open>score_seq\<close> returns the sum over the positions \<open>i\<close> of
  \<open>log2 (2^pssm[seq[i]][i] + 2^pssm[c[i]][i])\<close>, where \<open>c[i]\<close> is the complement of the
  symbol at the same position \<open>i\<close> (the complement is not reversed), and the PSSM holds
  the log-odds of the PWM against the background.
\<close>

theorem score_seq_soft_max_sum:
  assumes dna: "dna_model self"
    and len: "length seq = model_length self"
    and sub: "set seq \<subseteq> set ''ACGT''"
  shows "\<exists>ps. pssm self = Inr ps \<and>
           (\<forall>c\<in>set ''ACGT''. \<forall>i<model_length self.
              entry ps c i = log 2 (entry (f_pwm self) c i / the (f_background self c))) \<and>
           score_seq other self seq =
             Inr (\<Sum>i<length seq. log 2 (2 powr entry ps (seq ! i) i
                                         + 2 powr entry ps (dna_complement (seq ! i)) i))"
proof -
  from dna_model_pssm [OF dna] obtain ps where ps: "pssm self = Inr ps"
    and wf: "wf_matrix ps" and ml: "mlength ps = model_length self"
    and al: "set (alphabet ps) = set ''ACGT''"
    and en: "\<forall>c\<in>set ''ACGT''. \<forall>i<model_length self.
              entry ps c i = log 2 (entry (f_pwm self) c i / the (f_background self c))"
    by blast
  let ?cs = "map dna_complement seq"
  let ?g = "\<lambda>i. log 2 (2 powr entry ps (seq ! i) i + 2 powr entry ps (dna_complement (seq ! i)) i)"
  have comp: "complement other seq = Inr ?cs"
    by (rule complement_dna [OF sub])
  have elt: "strand_score self seq ?cs i = Inr (?g i)" if "i \<in> set [0..<length seq]" for i
  proof -
    from that have i: "i < length seq" by simp
    with sub have c: "seq ! i \<in> set ''ACGT''" using nth_mem by blast
    then have c': "dna_complement (seq ! i) \<in> set ''ACGT''" by (rule dna_complement_closed)
    from i len ml have il: "i < mlength ps" by simp
    from c al have "getitem ps (seq ! i) i = Inr (entry ps (seq ! i) i)"
      by (intro getitem_wf [OF wf _ il]) simp
    moreover from c' al
    have "getitem ps (dna_complement (seq ! i)) i = Inr (entry ps (dna_complement (seq ! i)) i)"
      by (intro getitem_wf [OF wf _ il]) simp
    ultimately show ?thesis
      using ps i by (simp add: strand_score_def str_index_def log2_def)
  qed
  have "py_sum (map (strand_score self seq ?cs) [0..<length seq])
      = Inr (sum_list (map ?g [0..<length seq]))"
    by (rule py_sum_map_Inr) (rule elt)
  also have "sum_list (map ?g [0..<length seq]) = (\<Sum>i<length seq. ?g i)"
    by (simp add: interv_sum_list_conv_sum_set_nat atLeast0LessThan)
  finally have "score_seq other self seq = Inr (\<Sum>i<length seq. ?g i)"
    using len comp by (simp add: score_seq_def)
  with ps en show ?thesis by blast
qed

theorem score_seq_soft_max_sum_witness:
  "dna_model skewed_model \<and> length ''AG'' = model_length skewed_model \<and>
   set ''AG'' \<subseteq> set ''ACGT'' \<and>
   score_seq (\<lambda>c. None) skewed_model ''AG'' = Inr (log 2 (5 / 2) + log 2 (3 / 2))"
proof -
  have len: "length ''AG'' = model_length skewed_model"
    by (simp add: model_length_skewed)
  have sub: "set ''AG'' \<subseteq> set ''ACGT''" by simp
  from score_seq_soft_max_sum [OF dna_skewed_model len sub, of "\<lambda>c. None"]
  obtain ps where en: "\<forall>c\<in>set ''ACGT''. \<forall>i<model_length skewed_model.
              entry ps c i = log 2 (entry (f_pwm skewed_model) c i / the (f_background skewed_model c))"
    and sc: "score_seq (\<lambda>c. None) skewed_model ''AG'' =
             Inr (\<Sum>i<length ''AG''. log 2 (2 powr entry ps (''AG'' ! i) i
                                         + 2 powr entry ps (dna_complement (''AG'' ! i)) i))"
    by blast
  have q: "entry (f_pwm skewed_model) (CHR ''A'') 0 / the (f_background skewed_model (CHR ''A'')) = 2"
    "entry (f_pwm skewed_model) (CHR ''T'') 0 / the (f_background skewed_model (CHR ''T'')) = 1 / 2"
    "entry (f_pwm skewed_model) (CHR ''G'') 1 / the (f_background skewed_model (CHR ''G'')) = 1"
    "entry (f_pwm skewed_model) (CHR ''C'') 1 / the (f_background skewed_model (CHR ''C'')) = 1 / 2"
    by (simp_all add: skewed_model_def skewed_pwm_def entry_def default_background_def)
  have half: "log 2 (1 / 2 :: real) = - 1"
    by (simp add: log_divide)
  have "entry ps (CHR ''A'') 0
      = log 2 (entry (f_pwm skewed_model) (CHR ''A'') 0 / the (f_background skewed_model (CHR ''A'')))"
    by (rule en [rule_format]) (simp_all add: model_length_skewed)
  then have e1: "entry ps (CHR ''A'') 0 = 1"
    unfolding q by simp
  have "entry ps (CHR ''T'') 0
      = log 2 (entry (f_pwm skewed_model) (CHR ''T'') 0 / the (f_background skewed_model (CHR ''T'')))"
    by (rule en [rule_format]) (simp_all add: model_length_skewed)
  then have e2: "entry ps (CHR ''T'') 0 = - 1"
    unfolding q half .
  have "entry ps (CHR ''G'') 1
      = log 2 (entry (f_pwm skewed_model) (CHR ''G'') 1 / the (f_background skewed_model (CHR ''G'')))"
    by (rule en [rule_format]) (simp_all add: model_length_skewed)
  then have e3: "entry ps (CHR ''G'') (Suc 0) = 0"
    unfolding q by simp
  have "entry ps (CHR ''C'') 1
      = log 2 (entry (f_pwm skewed_model) (CHR ''C'') 1 / the (f_background skewed_model (CHR ''C'')))"
    by (rule en [rule_format]) (simp_all add: model_length_skewed)
  then have e4: "entry ps (CHR ''C'') (Suc 0) = - 1"
    unfolding q half by simp
  note e = e1 e2 e3 e4
  have "(\<Sum>i<length ''AG''. log 2 (2 powr entry ps (''AG'' ! i) i
                                         + 2 powr entry ps (dna_complement (''AG'' ! i)) i))
      = log 2 (5 / 2) + log 2 (3 / 2)"
    using e by (simp add: lessThan_Suc dna_complement_def powr_minus)
  with sc have "score_seq (\<lambda>c. None) skewed_model ''AG'' = Inr (log 2 (5 / 2) + log 2 (3 / 2))"
    by (simp only:)
  with dna_skewed_model len sub show ?thesis by blast
qed

section \<open>Symbols outside the alphabet\<close>

text \<open>
  Claim C10. For a model over the DNA alphabet and a sequence of the model's length
  that holds a symbol other than A, C, G, T, \<^verbatim>\<open>score_seq\<close> passes the length assertion
  and then fails with a key error, whatever the complement helper does with the foreign
  symbol: it returns no score.
\<close>

theorem score_seq_foreign_symbol:
  assumes dna: "dna_model self"
    and len: "length seq = model_length self"
    and bad: "\<not> set seq \<subseteq> set ''ACGT''"
  shows "score_seq other self seq = Inl KeyError"
proof (cases "complement other seq")
  case (Inl e)
  then have "e = KeyError" by (rule complement_error)
  with Inl len show ?thesis by (simp add: score_seq_def)
next
  case (Inr cs)
  from dna_model_pssm [OF dna] obtain ps where ps: "pssm self = Inr ps"
    and wf: "wf_matrix ps" and ml: "mlength ps = model_length self"
    and al: "set (alphabet ps) = set ''ACGT''"
    by blast
  have lcs: "length cs = length seq" using Inr by (rule complement_length)
  let ?ts = "map (strand_score self seq cs) [0..<length seq]"
  have item: "getitem ps c i = Inl KeyError \<or> (\<exists>v. getitem ps c i = Inr v)"
    if "i < length seq" for c i
  proof (cases "rows ps c")
    case None
    then show ?thesis by (simp add: getitem_def)
  next
    case (Some r)
    then have "c \<in> dom (rows ps)" by blast
    with wf Some have "length r = mlength ps" by (simp add: wf_matrix_def)
    with that len ml Some show ?thesis by (simp add: getitem_def)
  qed
  have each: "t = Inl KeyError \<or> (\<exists>v. t = Inr v)" if "t \<in> set ?ts" for t
  proof -
    from that obtain i where i: "i < length seq" and t: "t = strand_score self seq cs i"
      by auto
    from item [OF i, of "seq ! i"] item [OF i, of "cs ! i"] show ?thesis
      unfolding t strand_score_def using ps i lcs by (auto simp: str_index_def)
  qed
  from bad obtain k where k: "k < length seq" and out: "seq ! k \<notin> set ''ACGT''"
    by (metis in_set_conv_nth subsetI)
  from out al wf have "rows ps (seq ! k) = None"
    unfolding wf_matrix_def by blast
  then have "strand_score self seq cs k = Inl KeyError"
    using ps k by (simp add: strand_score_def str_index_def getitem_def)
  with k have "Inl KeyError \<in> set ?ts" by (metis (no_types, lifting) atLeast0LessThan image_eqI lessThan_iff list.set_map set_upt)
  with each have "sequence ?ts = Inl KeyError" by (intro sequence_first_error) 
  then show ?thesis
    using Inr len by (simp add: score_seq_def py_sum_def)
qed

theorem score_seq_foreign_symbol_witness:
  "dna_model skewed_model \<and> length ''AN'' = model_length skewed_model \<and>
   \<not> set ''AN'' \<subseteq> set ''ACGT'' \<and>
   score_seq (\<lambda>c. None) skewed_model ''AN'' = Inl KeyError \<and>
   score_seq Some skewed_model ''AN'' = Inl KeyError"
proof -
  have len: "length ''AN'' = model_length skewed_model"
    by (simp add: model_length_skewed)
  have bad: "\<not> set ''AN'' \<subseteq> set ''ACGT''" by simp
  show ?thesis
    using score_seq_foreign_symbol [OF dna_skewed_model len bad, of "\<lambda>c. None"]
      score_seq_foreign_symbol [OF dna_skewed_model len bad, of Some]
      dna_skewed_model len bad by blast
qed

section \<open>Building the estimator\<close>

text \<open>
  Claim C1 says that \<^verbatim>\<open>bayesian_estimator\<close> computes the self-scores of the sites,
  fits the two Gaussians and returns an estimator. The code cannot do so: line 92 calls
  \<^verbatim>\<open>self.score_self()\<close>, while the method of the class is \<^verbatim>\<open>self_score\<close>, so
  for every model and all arguments the call raises AttributeError before anything is
  fitted.
\<close>

theorem bayesian_estimator_attribute_error:
  "bayesian_estimator other self bg_scores prior_m alpha = Inl AttributeError"
  by (simp add: bayesian_estimator_def call_scores_method_def BindingModel_attributes_def)

section \<open>The fields after construction\<close>

text \<open>
  Claim C9. With a motif library whose \<^verbatim>\<open>log_odds\<close> leaves the PWM and the
  background dict it is handed as they are, no operation on a constructed model changes
  \<^verbatim>\<open>_pwm\<close>, \<^verbatim>\<open>_background\<close> or \<^verbatim>\<open>_collection_set\<close>: after \<^verbatim>\<open>pwm\<close>,
  \<^verbatim>\<open>length\<close>, \<^verbatim>\<open>pssm\<close>, \<^verbatim>\<open>background\<close>, \<^verbatim>\<open>IC\<close>, \<^verbatim>\<open>patser_threshold\<close>,
  \<^verbatim>\<open>sites\<close>, \<^verbatim>\<open>score_seq\<close> and \<^verbatim>\<open>self_score\<close> the object is the one it was
  before, whether the call returned or raised; \<^verbatim>\<open>bayesian_estimator\<close> raises with
  the object untouched and so returns no estimator that could be called.
\<close>

theorem calls_leave_fields:
  assumes "leaves_arguments lib"
  shows "snd (call_pwm self) = self \<and> snd (call_length self) = self \<and>
         snd (call_pssm lib self) = self \<and> snd (call_background self) = self \<and>
         snd (call_IC lib self) = self \<and> snd (call_patser_threshold lib self) = self \<and>
         snd (call_sites self) = self \<and>
         snd (call_score_seq lib other seq self) = self \<and>
         snd (call_self_score lib other self) = self \<and>
         call_bayesian_estimator lib other bg_scores prior_m alpha self = (Inl AttributeError, self)"
proof -
  obtain r where r: "call_pssm lib self = (r, self)"
    using call_pssm_frame [OF assms, of self] by (metis prod.collapse)
  have ic: "snd (call_IC lib self) = self"
    by (cases r) (simp_all add: call_IC_def r)
  have pt: "snd (call_patser_threshold lib self) = self"
    by (cases r) (simp_all add: call_patser_threshold_def r)
  have be: "call_bayesian_estimator lib other bg_scores prior_m alpha self
      = (Inl AttributeError, self)"
    by (simp add: call_bayesian_estimator_def call_method_named_def BindingModel_attributes_def)
  show ?thesis
    using r ic pt be call_score_seq_frame [OF assms] call_self_score_frame [OF assms]
    by (simp add: call_pwm_def call_length_def call_background_def call_sites_def)
qed

theorem calls_leave_fields_witness:
  "\<forall>mean threshold.
     leaves_arguments (quiet_library mean threshold) \<and>
     call_score_seq (quiet_library mean threshold) (\<lambda>c. None) ''AG'' skewed_model
       = (score_seq (\<lambda>c. None) skewed_model ''AG'', skewed_model) \<and>
     call_pssm (quiet_library mean threshold) skewed_model = (pssm skewed_model, skewed_model) \<and>
     snd (call_IC (quiet_library mean threshold) skewed_model) = skewed_model \<and>
     snd (call_self_score (quiet_library mean threshold) (\<lambda>c. None) skewed_model) = skewed_model"
proof (intro allI)
  fix mean threshold
  let ?lib = "quiet_library mean threshold"
  have l: "leaves_arguments ?lib" by (rule leaves_quiet_library)
  have c: "computes_log_odds ?lib" by (rule computes_quiet_library)
  from calls_leave_fields [OF l, of skewed_model "\<lambda>c. None" "''AG''"]
  have "snd (call_IC ?lib skewed_model) = skewed_model"
    and "snd (call_self_score ?lib (\<lambda>c. None) skewed_model) = skewed_model"
    by simp_all
  with l call_score_seq_pure [OF c] call_pssm_pure [OF c]
  show "leaves_arguments ?lib \<and>
     call_score_seq ?lib (\<lambda>c. None) ''AG'' skewed_model
       = (score_seq (\<lambda>c. None) skewed_model ''AG'', skewed_model) \<and>
     call_pssm ?lib skewed_model = (pssm skewed_model, skewed_model) \<and>
     snd (call_IC ?lib skewed_model) = skewed_model \<and>
     snd (call_self_score ?lib (\<lambda>c. None) skewed_model) = skewed_model"
    by simp
qed

end
